theory Spec2Isabelle
  imports Complex_Main
begin

section \<open>JavaScript values\<close>

text \<open>
  The program is \<^verbatim>\<open>JavaScript/1-file-storage.js\<close>. Its cursor reads a file line by
  line, decodes each line with \<^verbatim>\<open>JSON.parse\<close> and compares fields of the decoded value
  with the fields of a query, with \<^verbatim>\<open>===\<close>.

  A number is an IEEE double. Strict equality does not tell \<^verbatim>\<open>+0\<close> from \<^verbatim>\<open>-0\<close>, so
  both are \<open>Finite 0\<close>; \<open>NaN\<close> is the one number that differs from itself.
\<close>

datatype jsnum = NaN | Finite rat | PlusInfinity | MinusInfinity

text \<open>What \<^verbatim>\<open>JSON.parse\<close> returns: a tree. An object is the list of its own properties.\<close>

datatype json =
    JNull
  | JBool bool
  | JNum jsnum
  | JStr string
  | JArr "json list"
  | JObj "(string \<times> json) list"

text \<open>
  Objects are compared by identity. Three kinds of object can meet in the comparison of
  line 90: an object of the standard library (\<open>Builtin\<close>, by its name, such as
  \<^verbatim>\<open>Object.prototype.toString\<close>), an object or array that \<^verbatim>\<open>JSON.parse\<close> has just
  allocated for the line being decoded (\<open>Parsed\<close>), and any other object the caller
  allocated (\<open>Allocated\<close>, by allocation number).
\<close>

datatype objref = Builtin string | Parsed json | Allocated nat

datatype jsval =
    VUndefined
  | VNull
  | VBool bool
  | VNum jsnum
  | VStr string
  | VObj objref

datatype error = Error string | SyntaxError | TypeError

fun num_eq :: "jsnum \<Rightarrow> jsnum \<Rightarrow> bool" where
  "num_eq NaN b = False"
| "num_eq a NaN = False"
| "num_eq a b = (a = b)"

text \<open>
  The left operand of line 90 is read from the value decoded in this very advance and
  the right operand from the query, which exists before the advance starts. A \<open>Parsed\<close>
  object is therefore never the object on the other side.
\<close>

fun same_object :: "objref \<Rightarrow> objref \<Rightarrow> bool" where
  "same_object (Builtin a) (Builtin b) = (a = b)"
| "same_object (Allocated a) (Allocated b) = (a = b)"
| "same_object a b = False"

text \<open>The operator \<^verbatim>\<open>===\<close>: no coercion, operands of different types are different.\<close>

fun strict_eq :: "jsval \<Rightarrow> jsval \<Rightarrow> bool" where
  "strict_eq VUndefined VUndefined = True"
| "strict_eq VNull VNull = True"
| "strict_eq (VBool a) (VBool b) = (a = b)"
| "strict_eq (VNum a) (VNum b) = num_eq a b"
| "strict_eq (VStr a) (VStr b) = (a = b)"
| "strict_eq (VObj a) (VObj b) = same_object a b"
| "strict_eq a b = False"

section \<open>The host: what Node.js provides\<close>

text \<open>
  \<^verbatim>\<open>JSON.parse\<close>, the property tables of the wrappers of primitives and of arrays, and
  the file system are not code of the repository. They are parameters of the model:
  \<^item> \<open>JSON_parse\<close>: the decoded tree, or \<open>None\<close> where \<^verbatim>\<open>JSON.parse\<close> throws a
    \<^verbatim>\<open>SyntaxError\<close>;
  \<^item> \<open>wrapper_get\<close>: what reading a property of a decoded boolean, number, string or
    array gives (\<^verbatim>\<open>length\<close>, an index, a method of \<^verbatim>\<open>Array.prototype\<close>, ...);
  \<^item> \<open>files\<close>: the lines of each file, as \<^verbatim>\<open>readline\<close> splits them, or the error
    of the system (\<^verbatim>\<open>ENOENT\<close> for a missing file) when the file cannot be opened; a
    file is finite, so the loop of \<^verbatim>\<open>next\<close> comes to an end.
\<close>

record host =
  JSON_parse :: "string \<Rightarrow> json option"
  wrapper_get :: "json \<Rightarrow> string \<Rightarrow> jsval"
  files :: "string \<Rightarrow> error + string list"

text \<open>
  The properties every decoded object inherits from \<^verbatim>\<open>Object.prototype\<close> (ECMAScript,
  with Annex B). \<^verbatim>\<open>__proto__\<close> is an accessor that returns the prototype itself.
\<close>

definition Object_prototype :: "(string \<times> jsval) list" where
  "Object_prototype =
    [(''constructor'', VObj (Builtin ''Object'')),
     (''__defineGetter__'', VObj (Builtin ''Object.prototype.__defineGetter__'')),
     (''__defineSetter__'', VObj (Builtin ''Object.prototype.__defineSetter__'')),
     (''hasOwnProperty'', VObj (Builtin ''Object.prototype.hasOwnProperty'')),
     (''__lookupGetter__'', VObj (Builtin ''Object.prototype.__lookupGetter__'')),
     (''__lookupSetter__'', VObj (Builtin ''Object.prototype.__lookupSetter__'')),
     (''isPrototypeOf'', VObj (Builtin ''Object.prototype.isPrototypeOf'')),
     (''propertyIsEnumerable'', VObj (Builtin ''Object.prototype.propertyIsEnumerable'')),
     (''toString'', VObj (Builtin ''Object.prototype.toString'')),
     (''valueOf'', VObj (Builtin ''Object.prototype.valueOf'')),
     (''__proto__'', VObj (Builtin ''Object.prototype'')),
     (''toLocaleString'', VObj (Builtin ''Object.prototype.toLocaleString''))]"

text \<open>The value of a decoded subtree once it is read out of its parent.\<close>

fun to_value :: "json \<Rightarrow> jsval" where
  "to_value JNull = VNull"
| "to_value (JBool b) = VBool b"
| "to_value (JNum n) = VNum n"
| "to_value (JStr s) = VStr s"
| "to_value (JArr xs) = VObj (Parsed (JArr xs))"
| "to_value (JObj kvs) = VObj (Parsed (JObj kvs))"

text \<open>
  \<^verbatim>\<open>data[field]\<close>: on \<^verbatim>\<open>null\<close> a \<^verbatim>\<open>TypeError\<close>; on an object the own property,
  else the inherited one, else \<^verbatim>\<open>undefined\<close>.
\<close>

fun get_property :: "host \<Rightarrow> json \<Rightarrow> string \<Rightarrow> error + jsval" where
  "get_property h JNull field = Inl TypeError"
| "get_property h (JObj kvs) field =
     Inr (case map_of kvs field of
            Some v \<Rightarrow> to_value v
          | None \<Rightarrow> (case map_of Object_prototype field of
                       Some b \<Rightarrow> b
                     | None \<Rightarrow> VUndefined))"
| "get_property h data field = Inr (wrapper_get h data field)"

section \<open>The query and the condition of lines 87 to 91\<close>

text \<open>
  A query is the list of the enumerable properties that \<^verbatim>\<open>for (const field in query)\<close>
  visits, each with its value; \<^verbatim>\<open>undefined\<close> and \<^verbatim>\<open>{}\<close> are the empty list.
\<close>

type_synonym query = "(string \<times> jsval) list"

definition query_value :: "query \<Rightarrow> string \<Rightarrow> jsval" where
  "query_value q field = (case map_of q field of Some v \<Rightarrow> v | None \<Rightarrow> VUndefined)"

text \<open>
  The loop body is \<^verbatim>\<open>condition = condition && data[field] === query[field]\<close>: once the
  condition is false the right operand is not evaluated any more.
\<close>

fun check_fields :: "host \<Rightarrow> json \<Rightarrow> query \<Rightarrow> string list \<Rightarrow> bool \<Rightarrow> error + bool" where
  "check_fields h data q [] condition = Inr condition"
| "check_fields h data q (field # others) condition =
     (if condition then
        (case get_property h data field of
           Inl e \<Rightarrow> Inl e
         | Inr v \<Rightarrow> check_fields h data q others (strict_eq v (query_value q field)))
      else check_fields h data q others False)"

section \<open>Classes, prototypes and constructors\<close>

text \<open>
  A class declaration creates two objects: the constructor function, which the name of
  the class denotes, and the prototype, which is the value of its \<^verbatim>\<open>prototype\<close>
  property. \<^verbatim>\<open>new C(...)\<close> creates \<^verbatim>\<open>this\<close> with the prototype of \<^verbatim>\<open>C\<close>, and
  \<^verbatim>\<open>this\<close> keeps it in the constructor of a base class reached by \<^verbatim>\<open>super\<close>.
\<close>

datatype class_name =
  DataAccessLayer | FsDataAccess | Database | Cursor | FileLineCursor | FileStorage

datatype class_object = Constructor class_name | Prototype class_name

definition getPrototypeOf_this :: "class_name \<Rightarrow> class_object" where
  "getPrototypeOf_this new_target = Prototype new_target"

definition abstract_class_error :: error where
  "abstract_class_error = Error ''abstract class should not be instanciated''"

text \<open>
  The two factories have no fields: an instance is known by its class. \<^verbatim>\<open>FsDataAccess\<close>
  does not extend \<^verbatim>\<open>DataAccessLayer\<close> and has no constructor of its own.
\<close>

datatype dal = DataAccessLayer_object | FsDataAccess_object

text \<open>
  Lines 9 to 14, for \<^verbatim>\<open>new DataAccessLayer()\<close>: no class of the file extends this one,
  so the class instantiated is \<^verbatim>\<open>DataAccessLayer\<close> itself.
\<close>

definition DataAccessLayer_constructor :: "error + dal" where
  "DataAccessLayer_constructor =
     (let proto = getPrototypeOf_this DataAccessLayer in
      if proto = Constructor DataAccessLayer then Inl abstract_class_error
      else Inr DataAccessLayer_object)"

definition DataAccessLayer_createDatabase :: "error + 'a" where
  "DataAccessLayer_createDatabase = Inl abstract_class_error"

definition DataAccessLayer_createCursor :: "error + 'a" where
  "DataAccessLayer_createCursor = Inl abstract_class_error"

text \<open>
  The stream of \<^verbatim>\<open>fs.createReadStream\<close>, as a \<^verbatim>\<open>readline\<close> interface finds it when it is
  attached. \<^verbatim>\<open>createReadStream\<close> returns at once and emits nothing while the program
  runs on without awaiting; a stream emits each event once, to the listeners attached at
  that moment.
  \<^item> \<open>Unread ls\<close>: the stream of a file that can be opened, before it has emitted
    anything; \<open>ls\<close> are the lines of the file.
  \<^item> \<open>Unopened e\<close>: the stream of a file that cannot be opened, before it has emitted
    its error \<open>e\<close>. The error goes to the interfaces attached when it is emitted; the
    program of lines 114 to 121 selects its cursor before it awaits, so there is one.
  \<^item> \<open>Drained\<close>: the stream has emitted the file and not yet its end.
  \<^item> \<open>Finished\<close>: the stream has emitted all it ever emits: the file and its end, or its
    error.

  A file is taken to fit one chunk of the stream (64 KiB by default): the stream emits
  it whole, and its end in a later turn of the event loop, once the program awaits with
  an interface attached.
\<close>

datatype ReadStream = Unread "string list" | Unopened error | Drained | Finished

definition createReadStream :: "host \<Rightarrow> string \<Rightarrow> ReadStream" where
  "createReadStream h name =
     (case files h name of
        Inl e \<Rightarrow> Unopened e
      | Inr ls \<Rightarrow> Unread ls)"

text \<open>
  \<^verbatim>\<open>readline.createInterface({ input, crlfDelay })[Symbol.asyncIterator]()\<close>: the lines the
  iterator will deliver, and what it answers once they are delivered. An interface
  attached before the stream has emitted anything receives every line and then the end
  of the stream: its iterator delivers the lines and then answers \<^verbatim>\<open>done\<close> for good
  (\<open>Closes\<close>). An interface attached when the file has been emitted receives the end
  only. When the file cannot be opened the interface receives the error: the iterator
  rejects once with it and answers \<^verbatim>\<open>done\<close> from then on (\<open>Rejects\<close>). An interface
  attached to a stream that has finished receives no event at all: the promise of
  \<^verbatim>\<open>next\<close> is never settled (\<open>Silent\<close>).
\<close>

datatype iterator_end = Closes | Rejects error | Silent

definition createInterface_asyncIterator :: "ReadStream \<Rightarrow> string list \<times> iterator_end" where
  "createInterface_asyncIterator input =
     (case input of
        Unread ls \<Rightarrow> (ls, Closes)
      | Unopened e \<Rightarrow> ([], Rejects e)
      | Drained \<Rightarrow> ([], Closes)
      | Finished \<Rightarrow> ([], Silent))"

record Database_object =
  dal :: dal

record FileStorage_object = Database_object +
  fileName :: string
  fileStream :: ReadStream

text \<open>
  Lines 40 to 46 and 48 to 50. The constructor runs for \<^verbatim>\<open>new Database(dal)\<close> and, by
  \<^verbatim>\<open>super(dal)\<close>, for \<^verbatim>\<open>new FileStorage(...)\<close>: \<open>new_target\<close> is the class instantiated.
\<close>

definition Database_constructor :: "class_name \<Rightarrow> dal \<Rightarrow> error + Database_object" where
  "Database_constructor new_target d =
     (let proto = getPrototypeOf_this new_target in
      if proto = Constructor Database then Inl abstract_class_error
      else Inr \<lparr>Database_object.dal = d\<rparr>)"

definition Database_select :: "error + 'a" where
  "Database_select = Inl (Error ''select method is not implemented'')"

text \<open>Lines 100 to 104: \<^verbatim>\<open>new FileStorage(dal, fileName)\<close>.\<close>

definition FileStorage_constructor :: "host \<Rightarrow> dal \<Rightarrow> string \<Rightarrow> error + FileStorage_object" where
  "FileStorage_constructor h d name =
     (case Database_constructor FileStorage d of
        Inl e \<Rightarrow> Inl e
      | Inr this \<Rightarrow>
          Inr (Database_object.extend this
                 (FileStorage_object.fields name (createReadStream h name))))"

section \<open>The cursor\<close>

text \<open>
  The iterator of the \<^verbatim>\<open>readline\<close> interface is kept in two parts. \<open>lines\<close>, a field of
  the cursor, holds the lines the iterator has still to deliver;
  \<^verbatim>\<open>cursor.lines.next()\<close> takes the first one. What the iterator answers once none is
  left is kept beside the cursor, in \<open>lines_end\<close> of \<open>FileLineCursor_instance\<close> below. The
  functions on \<open>FileLineCursor_object\<close> are those of a cursor whose iterator answers
  \<^verbatim>\<open>done\<close> for good once no line is left, as every cursor attached to a stream that is
  yet to emit its file does; \<open>FileLineCursor_next\<close> and \<open>for_await_instance\<close> add the two
  other ends on top of them. \<open>current\<close> counts in \<open>nat\<close>; the program counts in
  doubles, which are exact up to \<open>2 ^ 53\<close> lines.
\<close>

record Cursor_object =
  dal :: dal
  current :: nat

record FileLineCursor_object = Cursor_object +
  query :: query
  lines :: "string list"

text \<open>Lines 54 to 61 and 63 to 65.\<close>

definition Cursor_constructor :: "class_name \<Rightarrow> dal \<Rightarrow> error + Cursor_object" where
  "Cursor_constructor new_target d =
     (let proto = getPrototypeOf_this new_target in
      if proto = Constructor Cursor then Inl abstract_class_error
      else Inr \<lparr>Cursor_object.dal = d, current = 0\<rparr>)"

definition Cursor_asyncIterator :: "error + 'a" where
  "Cursor_asyncIterator = Inl (Error ''iterator is not implemented'')"

text \<open>
  Lines 69 to 76: \<^verbatim>\<open>new FileLineCursor(dal, fileStorage, query)\<close>. The constructor
  fills the fields; \<open>new_FileLineCursor\<close> is the object it leaves, with the end of its
  iterator.
\<close>

definition FileLineCursor_constructor ::
  "dal \<Rightarrow> FileStorage_object \<Rightarrow> query \<Rightarrow> error + FileLineCursor_object" where
  "FileLineCursor_constructor d fileStorage q =
     (case Cursor_constructor FileLineCursor d of
        Inl e \<Rightarrow> Inl e
      | Inr this \<Rightarrow>
          Inr (Cursor_object.extend this
                 (FileLineCursor_object.fields q
                    (fst (createInterface_asyncIterator (fileStream fileStorage))))))"

record FileLineCursor_instance =
  reader :: FileLineCursor_object
  lines_end :: iterator_end

definition new_FileLineCursor ::
  "dal \<Rightarrow> FileStorage_object \<Rightarrow> query \<Rightarrow> error + FileLineCursor_instance" where
  "new_FileLineCursor d fileStorage q =
     (case FileLineCursor_constructor d fileStorage q of
        Inl e \<Rightarrow> Inl e
      | Inr this \<Rightarrow>
          Inr \<lparr>reader = this,
               lines_end = snd (createInterface_asyncIterator (fileStream fileStorage))\<rparr>)"

text \<open>
  The factory methods, dispatched on the class of the factory: lines 16 to 22 for the
  base class, lines 28 to 34 for \<^verbatim>\<open>FsDataAccess\<close>.
\<close>

definition createDatabase :: "host \<Rightarrow> dal \<Rightarrow> string \<Rightarrow> error + FileStorage_object" where
  "createDatabase h this name =
     (case this of
        DataAccessLayer_object \<Rightarrow> DataAccessLayer_createDatabase
      | FsDataAccess_object \<Rightarrow> FileStorage_constructor h this name)"

definition createCursor ::
  "dal \<Rightarrow> FileStorage_object \<Rightarrow> query \<Rightarrow> error + FileLineCursor_instance" where
  "createCursor this fileStorage q =
     (case this of
        DataAccessLayer_object \<Rightarrow> DataAccessLayer_createCursor
      | FsDataAccess_object \<Rightarrow> new_FileLineCursor this fileStorage q)"

text \<open>Lines 106 to 109.\<close>

definition select :: "FileStorage_object \<Rightarrow> query \<Rightarrow> error + FileLineCursor_instance" where
  "select this q = createCursor (Database_object.dal this) this q"

datatype iter_result = Done | Value json | Throw error

fun lines_next :: "string list \<Rightarrow> string option \<times> string list" where
  "lines_next [] = (None, [])"
| "lines_next (l # ls) = (Some l, ls)"

text \<open>The method \<^verbatim>\<open>next\<close> of lines 81 to 94, with the cursor it leaves behind.\<close>

function cursor_next :: "host \<Rightarrow> FileLineCursor_object \<Rightarrow> iter_result \<times> FileLineCursor_object" where
  "cursor_next h cursor =
     (case lines_next (lines cursor) of
        (None, rest) \<Rightarrow> (Done, cursor\<lparr>lines := rest\<rparr>)
      | (Some val, rest) \<Rightarrow>
          (let cursor1 = cursor\<lparr>lines := rest, current := current cursor + 1\<rparr> in
           case JSON_parse h val of
             None \<Rightarrow> (Throw SyntaxError, cursor1)
           | Some data \<Rightarrow>
               (case check_fields h data (query cursor1) (map fst (query cursor1)) True of
                  Inl e \<Rightarrow> (Throw e, cursor1)
                | Inr condition \<Rightarrow>
                    if condition then (Value data, cursor1) else cursor_next h cursor1)))"
  by pat_completeness auto
termination
proof (relation "measure (\<lambda>(h, cursor). length (lines cursor))")
  show "wf (measure (\<lambda>(h, cursor). length (lines cursor)))"
    by simp
next
  fix h :: host and cursor :: FileLineCursor_object and x rest val cursor1
  assume "(x, rest) = lines_next (lines cursor)" and "x = Some val"
    and "cursor1 = cursor\<lparr>lines := rest, current := current cursor + 1\<rparr>"
  then show "((h, cursor1), (h, cursor)) \<in> measure (\<lambda>(h, cursor). length (lines cursor))"
    by (cases "lines cursor") auto
qed

declare cursor_next.simps [simp del]

text \<open>A caller that calls \<^verbatim>\<open>next\<close> \<open>n\<close> times, whatever each call answers.\<close>

fun advances ::
  "host \<Rightarrow> nat \<Rightarrow> FileLineCursor_object \<Rightarrow> iter_result list \<times> FileLineCursor_object" where
  "advances h 0 cursor = ([], cursor)"
| "advances h (Suc n) cursor =
     (case cursor_next h cursor of
        (r, cursor1) \<Rightarrow> (case advances h n cursor1 of (rs, cursor2) \<Rightarrow> (r # rs, cursor2)))"

lemma cursor_next_shorter:
  "cursor_next h c = (r, c') \<Longrightarrow> r \<noteq> Done \<Longrightarrow> length (lines c') < length (lines c)"
proof (induction "lines c" arbitrary: c)
  case Nil
  then show ?case
    by (simp add: cursor_next.simps [of h c])
next
  case (Cons l ls)
  let ?c1 = "c\<lparr>lines := ls, current := current c + 1\<rparr>"
  have l: "lines c = l # ls"
    using Cons.hyps(2) by simp
  show ?case
  proof (cases "cursor_next h c = cursor_next h ?c1")
    case True
    then have "length (lines c') < length (lines ?c1)"
      using Cons.hyps(1) [of ?c1] Cons.prems by simp
    then show ?thesis
      using l by simp
  next
    case False
    then have "c' = ?c1"
      using Cons.prems(1) l
      by (auto simp: cursor_next.simps [of h c] Let_def split: option.splits sum.splits if_splits)
    then show ?thesis
      using l by simp
  qed
qed

text \<open>
  The method \<^verbatim>\<open>next\<close> on the whole object. It differs from \<open>cursor_next\<close> in the one
  call where \<^verbatim>\<open>cursor.lines.next()\<close> finds no line left: the iterator then answers
  \<^verbatim>\<open>done\<close>, or rejects with the error of the stream (\<^verbatim>\<open>await\<close> throws it out of
  \<^verbatim>\<open>next\<close>, and the iterator answers \<^verbatim>\<open>done\<close> afterwards), or never settles its promise,
  so that the promise of \<^verbatim>\<open>next\<close> is never settled either.
\<close>

datatype answer = Settled iter_result | Unsettled

definition FileLineCursor_next ::
  "host \<Rightarrow> FileLineCursor_instance \<Rightarrow> answer \<times> FileLineCursor_instance" where
  "FileLineCursor_next h cursor =
     (case cursor_next h (reader cursor) of
        (Done, this) \<Rightarrow>
          (case lines_end cursor of
             Closes \<Rightarrow> (Settled Done, cursor\<lparr>reader := this\<rparr>)
           | Rejects e \<Rightarrow> (Settled (Throw e), cursor\<lparr>reader := this, lines_end := Closes\<rparr>)
           | Silent \<Rightarrow> (Unsettled, cursor\<lparr>reader := this\<rparr>))
      | (r, this) \<Rightarrow> (Settled r, cursor\<lparr>reader := this\<rparr>))"

lemma FileLineCursor_next_shorter:
  assumes "FileLineCursor_next h a = (Settled (Value item), a')"
  shows "length (lines (reader a')) < length (lines (reader a))"
proof -
  obtain r c where c: "cursor_next h (reader a) = (r, c)"
    by (cases "cursor_next h (reader a)")
  with assms have "r = Value item" and "a' = a\<lparr>reader := c\<rparr>"
    by (cases r; cases "lines_end a"; simp add: FileLineCursor_next_def)+
  with c show ?thesis
    using cursor_next_shorter [of h "reader a" r c] by simp
qed

section \<open>The loop of lines 118 to 120\<close>

text \<open>
  \<^verbatim>\<open>for await (const record of cursor)\<close> calls \<^verbatim>\<open>next\<close> until it answers \<^verbatim>\<open>done\<close> or
  throws; the result is the list of the records the body received, how the loop ended,
  and the cursor it leaves behind.
\<close>

datatype completion = Normal | Thrown error

function for_await ::
  "host \<Rightarrow> FileLineCursor_object \<Rightarrow> json list \<times> completion \<times> FileLineCursor_object" where
  "for_await h cursor =
     (case cursor_next h cursor of
        (Done, cursor1) \<Rightarrow> ([], Normal, cursor1)
      | (Throw e, cursor1) \<Rightarrow> ([], Thrown e, cursor1)
      | (Value item, cursor1) \<Rightarrow>
          (case for_await h cursor1 of
             (items, how, cursor2) \<Rightarrow> (item # items, how, cursor2)))"
  by pat_completeness auto
termination
proof (relation "measure (\<lambda>(h, cursor). length (lines cursor))")
  show "wf (measure (\<lambda>(h, cursor). length (lines cursor)))"
    by simp
next
  fix h :: host and cursor cursor1 :: FileLineCursor_object and x item
  assume "(x, cursor1) = cursor_next h cursor" and "x = Value item"
  then have "cursor_next h cursor = (Value item, cursor1)"
    by simp
  then have "length (lines cursor1) < length (lines cursor)"
    by (rule cursor_next_shorter) simp
  then show "((h, cursor1), (h, cursor)) \<in> measure (\<lambda>(h, cursor). length (lines cursor))"
    by simp
qed

declare for_await.simps [simp del]

text \<open>
  The same loop over the whole object: where \<^verbatim>\<open>next\<close> never settles, the loop never
  ends and the statements after it are never reached.
\<close>

datatype loop_end = Ended completion | Never

function for_await_instance ::
  "host \<Rightarrow> FileLineCursor_instance \<Rightarrow> json list \<times> loop_end \<times> FileLineCursor_instance" where
  "for_await_instance h cursor =
     (case FileLineCursor_next h cursor of
        (Unsettled, cursor1) \<Rightarrow> ([], Never, cursor1)
      | (Settled Done, cursor1) \<Rightarrow> ([], Ended Normal, cursor1)
      | (Settled (Throw e), cursor1) \<Rightarrow> ([], Ended (Thrown e), cursor1)
      | (Settled (Value item), cursor1) \<Rightarrow>
          (case for_await_instance h cursor1 of
             (items, how, cursor2) \<Rightarrow> (item # items, how, cursor2)))"
  by pat_completeness auto
termination
proof (relation "measure (\<lambda>(h, cursor). length (lines (reader cursor)))")
  show "wf (measure (\<lambda>(h, cursor). length (lines (reader cursor))))"
    by simp
next
  fix h :: host and cursor cursor1 :: FileLineCursor_instance and x r item
  assume "(x, cursor1) = FileLineCursor_next h cursor" and "x = Settled r" and "r = Value item"
  then have "FileLineCursor_next h cursor = (Settled (Value item), cursor1)"
    by simp
  then have "length (lines (reader cursor1)) < length (lines (reader cursor))"
    by (rule FileLineCursor_next_shorter)
  then show "((h, cursor1), (h, cursor)) \<in> measure (\<lambda>(h, cursor). length (lines (reader cursor)))"
    by simp
qed

declare for_await_instance.simps [simp del]

text \<open>The program of lines 114 to 121, for a file name and a query.\<close>

definition usage :: "host \<Rightarrow> string \<Rightarrow> query \<Rightarrow> error + json list \<times> loop_end" where
  "usage h name q =
     (let d = FsDataAccess_object in
      case createDatabase h d name of
        Inl e \<Rightarrow> Inl e
      | Inr db \<Rightarrow>
          (case select db q of
             Inl e \<Rightarrow> Inl e
           | Inr cursor \<Rightarrow>
               (case for_await_instance h cursor of
                  (items, how, cursor1) \<Rightarrow> Inr (items, how))))"

section \<open>Cursors of one handle\<close>






section \<open>Reading a run\<close>

text \<open>
  The condition of lines 87 to 91, stated on its own: every field of the query, read
  from the decoded value as \<^verbatim>\<open>data[field]\<close> reads it, is strictly equal to the query's
  value.
\<close>

definition field_equal :: "host \<Rightarrow> json \<Rightarrow> query \<Rightarrow> string \<Rightarrow> bool" where
  "field_equal h data q field =
     (case get_property h data field of
        Inl e \<Rightarrow> False
      | Inr v \<Rightarrow> strict_eq v (query_value q field))"

definition matches :: "host \<Rightarrow> query \<Rightarrow> json \<Rightarrow> bool" where
  "matches h q data = list_all (field_equal h data q) (map fst q)"

text \<open>
  The answer a line forces, or \<open>None\<close> when the loop goes on to the next line. Reading a
  field of \<^verbatim>\<open>null\<close> throws, so a \<^verbatim>\<open>null\<close> line ends the advance with a \<^verbatim>\<open>TypeError\<close>
  unless the query is empty.
\<close>

definition unit_result :: "host \<Rightarrow> query \<Rightarrow> string \<Rightarrow> iter_result option" where
  "unit_result h q l =
     (case JSON_parse h l of
        None \<Rightarrow> Some (Throw SyntaxError)
      | Some data \<Rightarrow>
          if data = JNull \<and> q \<noteq> [] then Some (Throw TypeError)
          else if matches h q data then Some (Value data)
          else None)"

text \<open>
  The records among the answers of a run, the records a list of lines decodes to, and
  the lines a cursor has pulled between two of its states.
\<close>

fun yielded :: "iter_result list \<Rightarrow> json list" where
  "yielded [] = []"
| "yielded (Value d # rs) = d # yielded rs"
| "yielded (r # rs) = yielded rs"

definition decoded :: "host \<Rightarrow> string list \<Rightarrow> json list" where
  "decoded h ls = List.map_filter (JSON_parse h) ls"

definition pulled :: "FileLineCursor_object \<Rightarrow> FileLineCursor_object \<Rightarrow> string list" where
  "pulled c c' = take (length (lines c) - length (lines c')) (lines c)"

section \<open>A host for the examples\<close>

text \<open>
  The lines of the scenario, what \<^verbatim>\<open>JSON.parse\<close> returns for each, and a few files.
  \<open>example_parse\<close> is \<^verbatim>\<open>JSON.parse\<close> on the lines the files below hold; \<^verbatim>\<open>not-json\<close> is
  the one on which it throws. No file holds a primitive or an array, so the table of
  their properties is never read. The six files named in \<open>example_names\<close> exist; opening
  any other name fails with \<^verbatim>\<open>ENOENT\<close>.
\<close>

definition Roma3 :: json where
  "Roma3 = JObj [(''city'', JStr ''Roma''), (''pop'', JNum (Finite 3))]"

definition Milano5 :: json where
  "Milano5 = JObj [(''city'', JStr ''Milano''), (''pop'', JNum (Finite 5))]"

definition Roma1 :: json where
  "Roma1 = JObj [(''city'', JStr ''Roma''), (''pop'', JNum (Finite 1))]"

definition example_parse :: "string \<Rightarrow> json option" where
  \<open>example_parse l =
     (if l = ''{"city":"Roma","pop":3}'' then Some Roma3
      else if l = ''{"city":"Milano","pop":5}'' then Some Milano5
      else if l = ''{"city":"Roma","pop":1}'' then Some Roma1
      else if l = ''{}'' then Some (JObj [])
      else if l = ''null'' then Some JNull
      else None)\<close>

definition example_files :: "string \<Rightarrow> string list" where
  \<open>example_files name =
     (if name = ''./storage.dat'' then
        [''{"city":"Roma","pop":3}'', ''{"city":"Milano","pop":5}'', ''{"city":"Roma","pop":1}'']
      else if name = ''./broken.dat'' then
        [''{"city":"Milano","pop":5}'', ''not-json'', ''{"city":"Roma","pop":1}'']
      else if name = ''./mixed.dat'' then [''{"city":"Roma","pop":3}'', ''{}'']
      else if name = ''./empty-object.dat'' then [''{}'']
      else if name = ''./null.dat'' then [''null'', ''{"city":"Roma","pop":1}'']
      else if name = ''./milano.dat'' then [''{"city":"Milano","pop":5}'']
      else [])\<close>

definition example_names :: "string list" where
  "example_names =
     [''./storage.dat'', ''./broken.dat'', ''./mixed.dat'', ''./empty-object.dat'', ''./null.dat'',
      ''./milano.dat'']"

definition example_open :: "string \<Rightarrow> error + string list" where
  "example_open name =
     (if name \<in> set example_names then Inr (example_files name) else Inl (Error ''ENOENT''))"

definition example_host :: host where
  "example_host =
     \<lparr>JSON_parse = example_parse, wrapper_get = (\<lambda>data field. VUndefined),
      files = example_open\<rparr>"

definition Roma :: query where
  "Roma = [(''city'', VStr ''Roma'')]"

definition pop3 :: query where
  "pop3 = [(''pop'', VNum (Finite 3))]"

definition toString_builtin :: query where
  "toString_builtin = [(''toString'', VObj (Builtin ''Object.prototype.toString''))]"

definition pop_undefined :: query where
  "pop_undefined = [(''pop'', VUndefined)]"

definition toString_undefined :: query where
  "toString_undefined = [(''toString'', VUndefined)]"

text \<open>
  The handle that \<^verbatim>\<open>createDatabase\<close> makes on the example host for a file that exists,
  and the cursor that \<^verbatim>\<open>select\<close> makes on it while the handle is new: the fields in
  \<open>example_cursor\<close>, the whole object in \<open>example_instance\<close>.
\<close>

definition example_database :: "string \<Rightarrow> FileStorage_object" where
  "example_database name =
     \<lparr>Database_object.dal = FsDataAccess_object, fileName = name,
      fileStream = Unread (example_files name)\<rparr>"

definition example_cursor :: "string \<Rightarrow> query \<Rightarrow> FileLineCursor_object" where
  "example_cursor name q =
     \<lparr>Cursor_object.dal = FsDataAccess_object, current = 0, query = q,
      lines = example_files name\<rparr>"

definition example_instance :: "string \<Rightarrow> query \<Rightarrow> FileLineCursor_instance" where
  "example_instance name q = \<lparr>reader = example_cursor name q, lines_end = Closes\<rparr>"


section \<open>One advance\<close>

lemma cursor_next_Nil:
  "lines c = [] \<Longrightarrow> cursor_next h c = (Done, c)"
  by (simp add: cursor_next.simps [of h c])

lemma cursor_next_Cons:
  "lines c = l # ls \<Longrightarrow>
   cursor_next h c =
     (let c1 = c\<lparr>lines := ls, current := current c + 1\<rparr> in
      case JSON_parse h l of
        None \<Rightarrow> (Throw SyntaxError, c1)
      | Some data \<Rightarrow>
          (case check_fields h data (query c) (map fst (query c)) True of
             Inl e \<Rightarrow> (Throw e, c1)
           | Inr condition \<Rightarrow> if condition then (Value data, c1) else cursor_next h c1))"
  by (simp add: cursor_next.simps [of h c] Let_def split: option.split sum.split)

lemma check_fields_False: "check_fields h data q fs False = Inr False"
  by (induction fs) auto

lemma get_property_Inl: "get_property h data f = Inl e \<longleftrightarrow> data = JNull \<and> e = TypeError"
  by (cases data) auto

text \<open>The loop of lines 89 to 91 computes the conjunction, or throws on \<^verbatim>\<open>null\<close>.\<close>

lemma check_fields_True:
  "check_fields h data q fs True =
     (if data = JNull \<and> fs \<noteq> [] then Inl TypeError
      else Inr (list_all (field_equal h data q) fs))"
proof (induction fs)
  case Nil
  show ?case by simp
next
  case (Cons f fs)
  show ?case
  proof (cases "data = JNull")
    case True
    then show ?thesis by simp
  next
    case False
    then obtain v where v: "get_property h data f = Inr v"
      by (cases "get_property h data f") (auto simp: get_property_Inl)
    show ?thesis
      using False v Cons
      by (cases "strict_eq v (query_value q f)")
        (simp_all add: field_equal_def check_fields_False)
  qed
qed

text \<open>
  Strict equality is the identity of values, but for \<open>NaN\<close> and for the objects of the
  line being decoded: operands of different types are never equal.
\<close>

lemma strict_eq_iff:
  "strict_eq a b \<longleftrightarrow> a = b \<and> a \<noteq> VNum NaN \<and> (\<forall>j. a \<noteq> VObj (Parsed j))"
proof (cases a)
  case (VNum x)
  then show ?thesis
    by (cases b; cases x) (auto elim: num_eq.elims)
next
  case (VObj x)
  then show ?thesis
    by (cases b; cases x) (auto elim: same_object.elims)
qed (cases b; simp)+

lemma matches_JNull: "matches h q JNull \<longleftrightarrow> q = []"
  by (cases q) (auto simp: matches_def field_equal_def)

lemma matches_iff:
  "matches h q data \<longleftrightarrow>
   (\<forall>field \<in> set (map fst q).
      case get_property h data field of
        Inl e \<Rightarrow> False
      | Inr v \<Rightarrow> strict_eq v (query_value q field))"
  by (simp add: matches_def field_equal_def list_all_iff)

text \<open>The same condition with \<^verbatim>\<open>===\<close> spelled out.\<close>

lemma matches_equal:
  "matches h q data \<longleftrightarrow>
   (\<forall>field \<in> set (map fst q).
      \<exists>v. get_property h data field = Inr v \<and> v = query_value q field
        \<and> v \<noteq> VNum NaN \<and> (\<forall>j. v \<noteq> VObj (Parsed j)))"
proof -
  have "(case get_property h data field of Inl e \<Rightarrow> False
         | Inr v \<Rightarrow> strict_eq v (query_value q field))
      \<longleftrightarrow> (\<exists>v. get_property h data field = Inr v \<and> v = query_value q field
            \<and> v \<noteq> VNum NaN \<and> (\<forall>j. v \<noteq> VObj (Parsed j)))" for field
    by (cases "get_property h data field") (simp_all add: strict_eq_iff)
  then show ?thesis
    by (simp only: matches_iff)
qed

lemma field_equal_extra:
  "field \<noteq> extra \<Longrightarrow>
   field_equal h (JObj ((extra, v) # own)) q field = field_equal h (JObj own) q field"
  by (simp add: field_equal_def)

lemma matches_extra:
  "extra \<notin> set (map fst q) \<Longrightarrow> matches h q (JObj ((extra, v) # own)) = matches h q (JObj own)"
  unfolding matches_def list_all_iff using field_equal_extra [of _ extra h v own q]
  by (metis (no_types, lifting))

lemma to_value_defined: "to_value v \<noteq> VUndefined"
  by (cases v) simp_all

lemma matches_undefined:
  assumes "map_of Object_prototype field = None"
  shows "matches h [(field, VUndefined)] (JObj own) \<longleftrightarrow> map_of own field = None"
  using assms
  by (cases "map_of own field"; cases "to_value (the (map_of own field))")
    (auto simp: matches_def field_equal_def query_value_def to_value_defined)

lemma unit_result_cases:
  assumes "unit_result h q l = Some r"
  obtains (malformed) "JSON_parse h l = None" "r = Throw SyntaxError"
  | (null_line) "JSON_parse h l = Some JNull" "q \<noteq> []" "r = Throw TypeError"
  | (match) d where "JSON_parse h l = Some d" "matches h q d" "r = Value d"
  using assms by (auto simp: unit_result_def matches_JNull split: option.splits if_splits)

lemma unit_result_None:
  "unit_result h q l = None \<longleftrightarrow>
   (\<exists>d. JSON_parse h l = Some d \<and> d \<noteq> JNull \<and> \<not> matches h q d)"
  by (auto simp: unit_result_def matches_JNull split: option.splits)

lemma cursor_next_step:
  "lines c = l # ls \<Longrightarrow>
   cursor_next h c =
     (case unit_result h (query c) l of
        Some r \<Rightarrow> (r, c\<lparr>lines := ls, current := current c + 1\<rparr>)
      | None \<Rightarrow> cursor_next h (c\<lparr>lines := ls, current := current c + 1\<rparr>))"
  by (auto simp: cursor_next_Cons unit_result_def check_fields_True matches_def Let_def
      split: option.split)

lemma cursor_next_skip:
  "lines c = pre @ ls \<Longrightarrow> \<forall>l \<in> set pre. unit_result h (query c) l = None \<Longrightarrow>
   cursor_next h c = cursor_next h (c\<lparr>lines := ls, current := current c + length pre\<rparr>)"
proof (induction pre arbitrary: c)
  case Nil
  then have "ls = lines c" by simp
  then show ?case by simp
next
  case (Cons l pre)
  let ?c1 = "c\<lparr>lines := pre @ ls, current := current c + 1\<rparr>"
  have "cursor_next h c = cursor_next h ?c1"
    using Cons.prems by (simp add: cursor_next_step [of c l "pre @ ls"])
  also have "\<dots> = cursor_next h (?c1\<lparr>lines := ls, current := current ?c1 + length pre\<rparr>)"
    using Cons.prems by (intro Cons.IH) simp_all
  finally show ?case by simp
qed

lemma cursor_next_all_skipped:
  "\<forall>l \<in> set (lines c). unit_result h (query c) l = None \<Longrightarrow>
   cursor_next h c = (Done, c\<lparr>lines := [], current := current c + length (lines c)\<rparr>)"
  using cursor_next_skip [of c "lines c" "[]" h] by (simp add: cursor_next_Nil)

lemma cursor_next_hit:
  "lines c = pre @ l # ls \<Longrightarrow> \<forall>x \<in> set pre. unit_result h (query c) x = None \<Longrightarrow>
   unit_result h (query c) l = Some r \<Longrightarrow>
   cursor_next h c = (r, c\<lparr>lines := ls, current := current c + length pre + 1\<rparr>)"
  using cursor_next_skip [of c pre "l # ls" h]
  by (simp add: cursor_next_step [of _ l ls])

text \<open>
  An advance either runs through all remaining lines, or stops at the first line that
  forces an answer.
\<close>

lemma cursor_next_cases:
  obtains
    (exhausted) "\<forall>l \<in> set (lines c). unit_result h (query c) l = None"
      "cursor_next h c = (Done, c\<lparr>lines := [], current := current c + length (lines c)\<rparr>)"
  | (hit) pre l ls r where "lines c = pre @ l # ls"
      "\<forall>x \<in> set pre. unit_result h (query c) x = None"
      "unit_result h (query c) l = Some r"
      "cursor_next h c = (r, c\<lparr>lines := ls, current := current c + length pre + 1\<rparr>)"
proof (cases "\<exists>l \<in> set (lines c). unit_result h (query c) l \<noteq> None")
  case False
  then have all: "\<forall>l \<in> set (lines c). unit_result h (query c) l = None"
    by simp
  show ?thesis
    using all cursor_next_all_skipped [OF all] by (rule exhausted)
next
  case True
  then obtain pre l ls where split: "lines c = pre @ l # ls"
    and l: "unit_result h (query c) l \<noteq> None"
    and pre: "\<forall>x \<in> set pre. \<not> unit_result h (query c) x \<noteq> None"
    using split_list_first_prop [of "lines c" "\<lambda>l. unit_result h (query c) l \<noteq> None"]
    by blast
  from l obtain r where r: "unit_result h (query c) l = Some r"
    by auto
  from pre have pre': "\<forall>x \<in> set pre. unit_result h (query c) x = None"
    by simp
  show ?thesis
    using split pre' r cursor_next_hit [OF split pre' r] by (rule hit)
qed

text \<open>The record of the first line is the answer exactly when it matches.\<close>

lemma cursor_next_first:
  assumes "lines c = l # ls" and "JSON_parse h l = Some data"
  shows "fst (cursor_next h c) = Value data \<longleftrightarrow> matches h (query c) data"
proof
  assume m: "matches h (query c) data"
  then have "unit_result h (query c) l = Some (Value data)"
    using assms(2) by (auto simp: unit_result_def matches_JNull)
  then show "fst (cursor_next h c) = Value data"
    by (simp add: cursor_next_step [OF assms(1)])
next
  assume v: "fst (cursor_next h c) = Value data"
  show "matches h (query c) data"
  proof (cases "unit_result h (query c) l")
    case (Some r)
    then have "r = Value data"
      using v by (simp add: cursor_next_step [OF assms(1)])
    with Some show ?thesis
      using assms(2) by (auto elim: unit_result_cases)
  next
    case None
    let ?c1 = "c\<lparr>lines := ls, current := current c + 1\<rparr>"
    have eq: "cursor_next h c = cursor_next h ?c1"
      using None by (simp add: cursor_next_step [OF assms(1)])
    show ?thesis
    proof (cases rule: cursor_next_cases [of ?c1 h])
      case exhausted
      with v eq show ?thesis by simp
    next
      case (hit pre x xs r)
      then have "r = Value data"
        using v eq by simp
      with hit(3) show ?thesis
        by (auto elim: unit_result_cases)
    qed
  qed
qed

lemma decoded_Nil [simp]: "decoded h [] = []"
  by (simp add: decoded_def List.map_filter_def)

lemma decoded_Cons:
  "decoded h (l # ls) =
     (case JSON_parse h l of None \<Rightarrow> decoded h ls | Some d \<Rightarrow> d # decoded h ls)"
  by (simp add: decoded_def List.map_filter_def split: option.split)

lemma decoded_append [simp]: "decoded h (xs @ ys) = decoded h xs @ decoded h ys"
  by (simp add: decoded_def List.map_filter_def)

lemma decoded_records: "map (JSON_parse h) ls = map Some rs \<Longrightarrow> decoded h ls = rs"
proof (induction ls arbitrary: rs)
  case Nil
  then show ?case by simp
next
  case (Cons l ls)
  then show ?case by (cases rs) (auto simp: decoded_Cons)
qed

lemma skipped_decoded:
  "\<forall>x \<in> set pre. unit_result h q x = None \<Longrightarrow> filter (matches h q) (decoded h pre) = []"
  by (induction pre) (auto simp: unit_result_None decoded_Cons)

lemma hit_decoded:
  "unit_result h q l = Some r \<Longrightarrow> filter (matches h q) (decoded h [l]) = yielded [r]"
  by (erule unit_result_cases) (simp_all add: decoded_Cons matches_JNull)

lemma pulled_append: "lines c = p @ lines c' \<Longrightarrow> pulled c c' = p"
  by (simp add: pulled_def)

text \<open>Everything the claims need to know about one advance.\<close>

lemma cursor_next_pulled:
  assumes "cursor_next h c = (r, c')"
  shows "\<exists>p. lines c = p @ lines c' \<and> c' = c\<lparr>lines := lines c', current := current c + length p\<rparr>
     \<and> yielded [r] = filter (matches h (query c)) (decoded h p)
     \<and> ((\<exists>x \<in> set p. JSON_parse h x = None) \<longleftrightarrow> r = Throw SyntaxError)
     \<and> (r = Throw SyntaxError \<longrightarrow> JSON_parse h (last p) = None)
     \<and> (\<forall>e. r = Throw e \<longrightarrow> e = SyntaxError \<or>
           e = TypeError \<and> query c \<noteq> [] \<and> JSON_parse h (last p) = Some JNull)
     \<and> (\<forall>d. r = Value d \<longrightarrow> JSON_parse h (last p) = Some d \<and> matches h (query c) d)
     \<and> (r = Done \<longrightarrow> lines c' = []) \<and> (r \<noteq> Done \<longrightarrow> p \<noteq> [])"
proof (cases rule: cursor_next_cases [of c h])
  case exhausted
  have "\<forall>x \<in> set (lines c). JSON_parse h x \<noteq> None"
    using exhausted(1) by (auto simp: unit_result_None)
  with exhausted assms show ?thesis
    by (intro exI [of _ "lines c"]) (auto simp: skipped_decoded)
next
  case (hit pre l ls r')
  have pre: "\<forall>x \<in> set pre. JSON_parse h x \<noteq> None"
    using hit(2) by (auto simp: unit_result_None)
  have r: "r = r'" and c': "c' = c\<lparr>lines := ls, current := current c + length pre + 1\<rparr>"
    using hit(4) assms by simp_all
  have y: "yielded [r'] = filter (matches h (query c)) (decoded h (pre @ [l]))"
    using hit_decoded [OF hit(3)] skipped_decoded [OF hit(2)] by simp
  from hit(3) show ?thesis
  proof (cases rule: unit_result_cases)
    case malformed
    with hit(1) r c' pre y show ?thesis
      by (intro exI [of _ "pre @ [l]"]) auto
  next
    case null_line
    with hit(1) r c' pre y show ?thesis
      by (intro exI [of _ "pre @ [l]"]) auto
  next
    case (match d)
    with hit(1) r c' pre y show ?thesis
      by (intro exI [of _ "pre @ [l]"]) auto
  qed
qed

lemma update_update_cursor:
  "c1 = c\<lparr>lines := l1, current := n1\<rparr> \<Longrightarrow> c2 = c1\<lparr>lines := l2, current := n2\<rparr> \<Longrightarrow>
   c2 = c\<lparr>lines := l2, current := n2\<rparr>"
  by simp

section \<open>Runs\<close>

lemma for_await_Nil: "lines c = [] \<Longrightarrow> for_await h c = ([], Normal, c)"
  by (simp add: for_await.simps [of h c] cursor_next_Nil)

lemma advances_Nil: "lines c = [] \<Longrightarrow> advances h n c = (replicate n Done, c)"
  by (induction n) (simp_all add: cursor_next_Nil)

lemma yielded_replicate_Done [simp]: "yielded (replicate n Done) = []"
  by (induction n) simp_all

text \<open>Enough calls of \<^verbatim>\<open>next\<close> yield the matching records of the whole source.\<close>

lemma advances_yielded:
  "length (lines c) < n \<Longrightarrow>
   yielded (fst (advances h n c)) = filter (matches h (query c)) (decoded h (lines c))"
proof (induction n arbitrary: c)
  case 0
  then show ?case by simp
next
  case (Suc n)
  show ?case
  proof (cases rule: cursor_next_cases [of c h])
    case exhausted
    then show ?thesis
      by (simp add: advances_Nil skipped_decoded)
  next
    case (hit pre l ls r)
    let ?c1 = "c\<lparr>lines := ls, current := current c + length pre + 1\<rparr>"
    have "length (lines ?c1) < n"
      using Suc.prems hit(1) by simp
    then have IH: "yielded (fst (advances h n ?c1)) = filter (matches h (query c)) (decoded h ls)"
      using Suc.IH [of ?c1] by simp
    have split: "lines c = pre @ [l] @ ls"
      using hit(1) by simp
    have "yielded (fst (advances h (Suc n) c)) = yielded [r] @ yielded (fst (advances h n ?c1))"
      using hit(4) by (cases r) (simp_all split: prod.split)
    also have "\<dots> =
        filter (matches h (query c)) (decoded h [l]) @ filter (matches h (query c)) (decoded h ls)"
      using IH hit_decoded [OF hit(3)] by simp
    also have "\<dots> = filter (matches h (query c)) (decoded h (lines c))"
    proof -
      have "decoded h (lines c) = decoded h pre @ decoded h [l] @ decoded h ls"
        by (simp only: split decoded_append)
      then show ?thesis
        using skipped_decoded [OF hit(2)] by simp
    qed
    finally show ?thesis .
  qed
qed

lemma advances_pulled:
  "advances h n c = (rs, c') \<Longrightarrow>
   \<exists>p. lines c = p @ lines c' \<and> c' = c\<lparr>lines := lines c', current := current c + length p\<rparr>
     \<and> length (yielded rs) \<le> length p \<and> length rs = n"
proof (induction n arbitrary: c rs c')
  case 0
  then show ?case by auto
next
  case (Suc n)
  obtain r c1 where step: "cursor_next h c = (r, c1)"
    by (cases "cursor_next h c")
  obtain rs1 c2 where rest: "advances h n c1 = (rs1, c2)"
    by (cases "advances h n c1")
  from Suc.prems step rest have eq: "rs = r # rs1" "c' = c2"
    by simp_all
  from cursor_next_pulled [OF step] obtain p where p: "lines c = p @ lines c1"
    "c1 = c\<lparr>lines := lines c1, current := current c + length p\<rparr>"
    "r \<noteq> Done \<longrightarrow> p \<noteq> []"
    by blast
  from Suc.IH [OF rest] obtain p1 where p1: "lines c1 = p1 @ lines c2"
    "c2 = c1\<lparr>lines := lines c2, current := current c1 + length p1\<rparr>"
    "length (yielded rs1) \<le> length p1" "length rs1 = n"
    by blast
  have "length (yielded [r]) \<le> length p"
    using p(3) by (cases r; cases p) simp_all
  then have "length (yielded rs) \<le> length (p @ p1)"
    using p1(3) eq(1) by (cases r) simp_all
  moreover have "c' = c\<lparr>lines := lines c', current := current c + length (p @ p1)\<rparr>"
  proof -
    have "current c1 = current c + length p"
      by (subst p(2)) simp
    then show ?thesis
      using update_update_cursor [OF p(2) p1(2)] eq(2) by (simp add: add.assoc)
  qed
  ultimately show ?case
    using p(1) p1(1) p1(4) eq by (intro exI [of _ "p @ p1"]) simp
qed

lemma advances_add:
  "advances h (m + k) c =
     (case advances h m c of
        (rs1, c1) \<Rightarrow> (case advances h k c1 of (rs2, c2) \<Rightarrow> (rs1 @ rs2, c2)))"
  by (induction m arbitrary: c) (auto split: prod.splits)

lemma advances_current_mono:
  "m \<le> n \<Longrightarrow> current (snd (advances h m c)) \<le> current (snd (advances h n c))"
proof -
  assume "m \<le> n"
  then obtain k where n: "n = m + k"
    by (auto simp: le_iff_add)
  obtain rs1 c1 where a: "advances h m c = (rs1, c1)"
    by (cases "advances h m c")
  obtain rs2 c2 where b: "advances h k c1 = (rs2, c2)"
    by (cases "advances h k c1")
  from advances_pulled [OF b] obtain p where p: "lines c1 = p @ lines c2"
    "c2 = c1\<lparr>lines := lines c2, current := current c1 + length p\<rparr>"
    by blast
  have "current c2 = current c1 + length p"
    by (subst p(2)) simp
  then show ?thesis
    using a b n by (simp add: advances_add)
qed

text \<open>Everything the claims need to know about the loop.\<close>

lemma for_await_pulled:
  "for_await h c = (items, how, c') \<Longrightarrow>
   \<exists>p. lines c = p @ lines c' \<and> c' = c\<lparr>lines := lines c', current := current c + length p\<rparr>
     \<and> items = filter (matches h (query c)) (decoded h p)
     \<and> (how = Normal \<longrightarrow> lines c' = [])
     \<and> ((\<exists>x \<in> set p. JSON_parse h x = None) \<longleftrightarrow> how = Thrown SyntaxError)
     \<and> (\<forall>e. how = Thrown e \<longrightarrow> e = SyntaxError \<or>
           e = TypeError \<and> query c \<noteq> [] \<and> (\<exists>x \<in> set p. JSON_parse h x = Some JNull))"
proof (induction h c arbitrary: items how c' rule: for_await.induct)
  case (1 h c)
  obtain r c1 where step: "cursor_next h c = (r, c1)"
    by (cases "cursor_next h c")
  from cursor_next_pulled [OF step] obtain p where p: "lines c = p @ lines c1"
    "c1 = c\<lparr>lines := lines c1, current := current c + length p\<rparr>"
    "yielded [r] = filter (matches h (query c)) (decoded h p)"
    "(\<exists>x \<in> set p. JSON_parse h x = None) \<longleftrightarrow> r = Throw SyntaxError"
    "\<forall>e. r = Throw e \<longrightarrow> e = SyntaxError \<or>
       e = TypeError \<and> query c \<noteq> [] \<and> JSON_parse h (last p) = Some JNull"
    "r = Done \<longrightarrow> lines c1 = []" "r \<noteq> Done \<longrightarrow> p \<noteq> []"
    by blast
  show ?case
  proof (cases r)
    case Done
    with step "1.prems" have "items = []" "how = Normal" "c' = c1"
      by (simp_all add: for_await.simps [of h c])
    with p Done show ?thesis
      by (intro exI [of _ p]) auto
  next
    case (Throw e)
    with step "1.prems" have "items = []" "how = Thrown e" "c' = c1"
      by (simp_all add: for_await.simps [of h c])
    moreover have "last p \<in> set p"
      using p(7) Throw by simp
    ultimately show ?thesis
      using p Throw by (intro exI [of _ p]) auto
  next
    case (Value d)
    obtain items1 how1 c2 where rest: "for_await h c1 = (items1, how1, c2)"
      by (cases "for_await h c1")
    with step Value "1.prems" have eq: "items = d # items1" "how = how1" "c' = c2"
      by (simp_all add: for_await.simps [of h c])
    have q1: "query c1 = query c"
      by (subst p(2)) simp
    from "1.IH" [OF step [symmetric] Value rest] obtain p1 where p1: "lines c1 = p1 @ lines c2"
      "c2 = c1\<lparr>lines := lines c2, current := current c1 + length p1\<rparr>"
      "items1 = filter (matches h (query c1)) (decoded h p1)"
      "how1 = Normal \<longrightarrow> lines c2 = []"
      "(\<exists>x \<in> set p1. JSON_parse h x = None) \<longleftrightarrow> how1 = Thrown SyntaxError"
      "\<forall>e. how1 = Thrown e \<longrightarrow> e = SyntaxError \<or>
         e = TypeError \<and> query c1 \<noteq> [] \<and> (\<exists>x \<in> set p1. JSON_parse h x = Some JNull)"
      by blast
    have nothrow: "\<forall>x \<in> set p. JSON_parse h x \<noteq> None"
      using p(4) Value by auto
    have c1cur: "current c1 = current c + length p"
      by (subst p(2)) simp
    have "c2 = c\<lparr>lines := lines c2, current := current c1 + length p1\<rparr>"
      using update_update_cursor [OF p(2) p1(2)] .
    then have "c' = c\<lparr>lines := lines c', current := current c + length (p @ p1)\<rparr>"
      using c1cur eq(3) by (simp add: add.assoc)
    moreover have "items = filter (matches h (query c)) (decoded h (p @ p1))"
      using eq(1) p1(3) p(3) Value q1 by simp
    ultimately show ?thesis
      using p(1) p1(1) p1(4) p1(5) p1(6) eq nothrow q1
      by (intro exI [of _ "p @ p1"]) auto
  qed
qed

text \<open>The loop over a source of records, none of which makes the condition throw.\<close>

lemma for_await_records:
  assumes "map (JSON_parse h) (lines c) = map Some rs" and "JNull \<notin> set rs \<or> query c = []"
  shows "for_await h c =
     (filter (matches h (query c)) rs, Normal,
      c\<lparr>lines := [], current := current c + length rs\<rparr>)"
proof -
  obtain items how c' where run: "for_await h c = (items, how, c')"
    by (cases "for_await h c")
  from for_await_pulled [OF run] obtain p where p: "lines c = p @ lines c'"
    "c' = c\<lparr>lines := lines c', current := current c + length p\<rparr>"
    "items = filter (matches h (query c)) (decoded h p)"
    "how = Normal \<longrightarrow> lines c' = []"
    "(\<exists>x \<in> set p. JSON_parse h x = None) \<longleftrightarrow> how = Thrown SyntaxError"
    "\<forall>e. how = Thrown e \<longrightarrow> e = SyntaxError \<or>
       e = TypeError \<and> query c \<noteq> [] \<and> (\<exists>x \<in> set p. JSON_parse h x = Some JNull)"
    by blast
  have all: "\<forall>x \<in> set (lines c). \<exists>d \<in> set rs. JSON_parse h x = Some d"
  proof
    fix x assume "x \<in> set (lines c)"
    then have "JSON_parse h x \<in> set (map Some rs)"
      using assms(1) by (metis imageI set_map)
    then show "\<exists>d \<in> set rs. JSON_parse h x = Some d"
      by auto
  qed
  have sub: "set p \<subseteq> set (lines c)"
    using p(1) by auto
  have "how \<noteq> Thrown SyntaxError"
    using p(5) all sub by fastforce
  moreover have "how \<noteq> Thrown TypeError"
  proof
    assume "how = Thrown TypeError"
    with p(6) have "query c \<noteq> []" and "\<exists>x \<in> set p. JSON_parse h x = Some JNull"
      by simp_all
    with all sub have "JNull \<in> set rs"
      by fastforce
    with assms(2) \<open>query c \<noteq> []\<close> show False
      by simp
  qed
  ultimately have how: "how = Normal"
    using p(6) by (cases how) auto
  then have "lines c' = []"
    using p(4) by simp
  then have "p = lines c"
    using p(1) by simp
  moreover have "length (lines c) = length rs"
    using assms(1) by (metis length_map)
  ultimately show ?thesis
    using run p(2) p(3) how \<open>lines c' = []\<close> decoded_records [OF assms(1)] by simp
qed

section \<open>Constructors, factories and handles\<close>

lemma constructor_current:
  "FileLineCursor_constructor d fileStorage q = Inr c \<Longrightarrow> current c = 0 \<and> query c = q
     \<and> lines c = fst (createInterface_asyncIterator (fileStream fileStorage))
     \<and> Cursor_object.dal c = d"
  by (auto simp: FileLineCursor_constructor_def Cursor_constructor_def getPrototypeOf_this_def
      Cursor_object.defs FileLineCursor_object.defs)

lemma createDatabase_Fs:
  "createDatabase h FsDataAccess_object name =
     Inr \<lparr>Database_object.dal = FsDataAccess_object, fileName = name,
          fileStream = createReadStream h name\<rparr>"
  by (simp add: createDatabase_def FileStorage_constructor_def Database_constructor_def
      getPrototypeOf_this_def Database_object.defs FileStorage_object.defs)

lemma select_Fs:
  "Database_object.dal db = FsDataAccess_object \<Longrightarrow>
   select db q =
     Inr \<lparr>reader = \<lparr>Cursor_object.dal = FsDataAccess_object, current = 0, query = q,
                     lines = fst (createInterface_asyncIterator (fileStream db))\<rparr>,
          lines_end = snd (createInterface_asyncIterator (fileStream db))\<rparr>"
  by (simp add: select_def createCursor_def new_FileLineCursor_def FileLineCursor_constructor_def
      Cursor_constructor_def getPrototypeOf_this_def Cursor_object.defs FileLineCursor_object.defs)









lemma for_await_instance_reader:
  "for_await h (reader a) = (items, how, c) \<Longrightarrow>
   for_await_instance h a =
     (case how of
        Thrown e \<Rightarrow> (items, Ended (Thrown e), a\<lparr>reader := c\<rparr>)
      | Normal \<Rightarrow>
          (case lines_end a of
             Closes \<Rightarrow> (items, Ended Normal, a\<lparr>reader := c\<rparr>)
           | Rejects e \<Rightarrow> (items, Ended (Thrown e), a\<lparr>reader := c, lines_end := Closes\<rparr>)
           | Silent \<Rightarrow> (items, Never, a\<lparr>reader := c\<rparr>)))"
proof (induction "length (lines (reader a))" arbitrary: a items how c rule: less_induct)
  case less
  obtain r c1 where r: "cursor_next h (reader a) = (r, c1)"
    by (cases "cursor_next h (reader a)")
  show ?case
  proof (cases r)
    case Done
    then show ?thesis
      using less.prems r
      by (auto simp: for_await.simps [of h "reader a"] for_await_instance.simps [of h a]
          FileLineCursor_next_def split: iterator_end.split)
  next
    case (Throw e)
    then show ?thesis
      using less.prems r
      by (auto simp: for_await.simps [of h "reader a"] for_await_instance.simps [of h a]
          FileLineCursor_next_def)
  next
    case (Value item)
    obtain items1 how1 c2 where run: "for_await h c1 = (items1, how1, c2)"
      by (cases "for_await h c1")
    let ?a1 = "a\<lparr>reader := c1\<rparr>"
    have nxt: "FileLineCursor_next h a = (Settled (Value item), ?a1)"
      using r Value by (simp add: FileLineCursor_next_def)
    have "length (lines (reader ?a1)) < length (lines (reader a))"
      using cursor_next_shorter [OF r] Value by simp
    from less.hyps [OF this, of items1 how1 c2]
    have "for_await_instance h ?a1 =
        (case how1 of
           Thrown e \<Rightarrow> (items1, Ended (Thrown e), a\<lparr>reader := c2\<rparr>)
         | Normal \<Rightarrow>
             (case lines_end a of
                Closes \<Rightarrow> (items1, Ended Normal, a\<lparr>reader := c2\<rparr>)
              | Rejects e \<Rightarrow> (items1, Ended (Thrown e), a\<lparr>reader := c2, lines_end := Closes\<rparr>)
              | Silent \<Rightarrow> (items1, Never, a\<lparr>reader := c2\<rparr>)))"
      using run by (auto split: completion.split iterator_end.split)
    then show ?thesis
      using less.prems r nxt Value run
      by (auto simp: for_await.simps [of h "reader a"] for_await_instance.simps [of h a]
          split: completion.split iterator_end.split)
  qed
qed

lemma for_await_instance_Closes:
  "for_await h c = (items, how, c') \<Longrightarrow>
   for_await_instance h \<lparr>reader = c, lines_end = Closes\<rparr> =
     (items, Ended how, \<lparr>reader = c', lines_end = Closes\<rparr>)"
  using for_await_instance_reader [of h "\<lparr>reader = c, lines_end = Closes\<rparr>" items how c']
  by (cases how) simp_all







text \<open>The methods of the base classes throw (lines 16 to 22, 48 to 50 and 63 to 65).\<close>

lemma base_methods_throw:
  "createDatabase h DataAccessLayer_object name = Inl abstract_class_error"
  "createCursor DataAccessLayer_object fileStorage q = Inl abstract_class_error"
  "(Database_select :: error + FileLineCursor_instance) =
     Inl (Error ''select method is not implemented'')"
  "(Cursor_asyncIterator :: error + unit) = Inl (Error ''iterator is not implemented'')"
  by (simp_all add: createDatabase_def createCursor_def DataAccessLayer_createDatabase_def
      DataAccessLayer_createCursor_def Database_select_def Cursor_asyncIterator_def)

section \<open>The examples, evaluated\<close>

lemmas example_defs =
  example_cursor_def example_host_def example_files_def example_parse_def Roma_def
  Roma3_def Milano5_def Roma1_def


lemmas run_simps =
  cursor_next_step cursor_next_Nil unit_result_def matches_def field_equal_def query_value_def
  decoded_Cons numeral_eq_Suc

text \<open>The scenario of the specification: two of the three records are from Roma.\<close>

lemma example_storage_for_await:
  "for_await example_host (example_cursor ''./storage.dat'' Roma) =
     ([Roma3, Roma1], Normal, (example_cursor ''./storage.dat'' Roma)\<lparr>lines := [], current := 3\<rparr>)"
  by (simp add: for_await.simps run_simps example_defs)

lemma example_storage_instance:
  "for_await_instance example_host (example_instance ''./storage.dat'' Roma) =
     ([Roma3, Roma1], Ended Normal,
      (example_instance ''./storage.dat'' Roma)
        \<lparr>reader := (example_cursor ''./storage.dat'' Roma)\<lparr>lines := [], current := 3\<rparr>\<rparr>)"
  using for_await_instance_Closes [OF example_storage_for_await]
  by (simp add: example_instance_def)

lemma example_storage_advances:
  "advances example_host 2 (example_cursor ''./storage.dat'' Roma) =
     ([Value Roma3, Value Roma1],
      (example_cursor ''./storage.dat'' Roma)\<lparr>lines := [], current := 3\<rparr>)"
  by (simp add: run_simps example_defs)


lemma example_storage_all:
  "for_await example_host (example_cursor ''./storage.dat'' []) =
     ([Roma3, Milano5, Roma1], Normal,
      (example_cursor ''./storage.dat'' [])\<lparr>lines := [], current := 3\<rparr>)"
  by (simp add: for_await.simps run_simps example_defs)

lemma example_storage_all_advances:
  "advances example_host 4 (example_cursor ''./storage.dat'' []) =
     ([Value Roma3, Value Milano5, Value Roma1, Done],
      (example_cursor ''./storage.dat'' [])\<lparr>lines := [], current := 3\<rparr>)"
  by (simp add: run_simps example_defs)

lemma example_storage_next:
  \<open>cursor_next example_host (example_cursor ''./storage.dat'' Roma) =
     (Value Roma3,
      (example_cursor ''./storage.dat'' Roma)
        \<lparr>lines := [''{"city":"Milano","pop":5}'', ''{"city":"Roma","pop":1}''], current := 1\<rparr>)\<close>
  by (simp add: run_simps example_defs)

lemma example_createDatabase:
  "name \<in> set example_names \<Longrightarrow>
   createDatabase example_host FsDataAccess_object name = Inr (example_database name)"
  by (simp add: createDatabase_Fs createReadStream_def example_database_def example_host_def
      example_open_def)



lemma example_select:
  "select (example_database name) q = Inr (example_instance name q)"
  by (simp add: select_Fs example_database_def example_instance_def example_cursor_def
      createInterface_asyncIterator_def)


lemma example_constructor:
  "FileLineCursor_constructor FsDataAccess_object (example_database name) q =
     Inr (example_cursor name q)"
  by (simp add: FileLineCursor_constructor_def Cursor_constructor_def getPrototypeOf_this_def
      Cursor_object.defs FileLineCursor_object.defs createInterface_asyncIterator_def
      example_database_def example_cursor_def)

lemma example_usage:
  "usage example_host ''./storage.dat'' Roma = Inr ([Roma3, Roma1], Ended Normal)"
  by (simp add: usage_def example_createDatabase example_names_def example_select
      example_storage_instance)


text \<open>A malformed line: the advance that pulls it throws, the next one goes on.\<close>

lemma example_broken_next:
  \<open>cursor_next example_host (example_cursor ''./broken.dat'' Roma) =
     (Throw SyntaxError,
      (example_cursor ''./broken.dat'' Roma)\<lparr>lines := [''{"city":"Roma","pop":1}''], current := 2\<rparr>)\<close>
  by (simp add: run_simps example_defs)

lemma example_broken_for_await:
  \<open>for_await example_host (example_cursor ''./broken.dat'' Roma) =
     ([], Thrown SyntaxError,
      (example_cursor ''./broken.dat'' Roma)\<lparr>lines := [''{"city":"Roma","pop":1}''], current := 2\<rparr>)\<close>
  by (simp add: for_await.simps run_simps example_defs)

lemma example_broken_advances:
  "advances example_host 4 (example_cursor ''./broken.dat'' Roma) =
     ([Throw SyntaxError, Value Roma1, Done, Done],
      (example_cursor ''./broken.dat'' Roma)\<lparr>lines := [], current := 3\<rparr>)"
  by (simp add: run_simps example_defs)

text \<open>A line \<^verbatim>\<open>null\<close>: it decodes, and reading its field throws.\<close>

lemma example_null_advances:
  "advances example_host 3 (example_cursor ''./null.dat'' Roma) =
     ([Throw TypeError, Value Roma1, Done],
      (example_cursor ''./null.dat'' Roma)\<lparr>lines := [], current := 2\<rparr>)"
  by (simp add: run_simps example_defs)

text \<open>No record of the file matches: one advance pulls its line and answers \<^verbatim>\<open>done\<close>.\<close>

lemma example_Milano_only:
  "cursor_next example_host (example_cursor ''./milano.dat'' Roma) =
     (Done, (example_cursor ''./milano.dat'' Roma)\<lparr>lines := [], current := 1\<rparr>)"
  by (simp add: run_simps example_defs)

text \<open>The same query over numbers, and a query for a function every object inherits.\<close>

lemma example_pop3_next:
  \<open>cursor_next example_host (example_cursor ''./storage.dat'' pop3) =
     (Value Roma3,
      (example_cursor ''./storage.dat'' pop3)
        \<lparr>lines := [''{"city":"Milano","pop":5}'', ''{"city":"Roma","pop":1}''], current := 1\<rparr>)\<close>
  by (simp add: run_simps example_defs pop3_def)

lemma example_pop3_advances:
  "advances example_host 4 (example_cursor ''./storage.dat'' pop3) =
     ([Value Roma3, Done, Done, Done],
      (example_cursor ''./storage.dat'' pop3)\<lparr>lines := [], current := 3\<rparr>)"
  by (simp add: run_simps example_defs pop3_def)

lemma example_toString_advances:
  "advances example_host 3 (example_cursor ''./mixed.dat'' toString_builtin) =
     ([Value Roma3, Value (JObj []), Done],
      (example_cursor ''./mixed.dat'' toString_builtin)\<lparr>lines := [], current := 2\<rparr>)"
  by (simp add: run_simps example_defs toString_builtin_def Object_prototype_def)





section \<open>The claims\<close>

text \<open>
  C1 (filter correctness). A caller that keeps calling \<^verbatim>\<open>next\<close> until the source is
  exhausted, going on after an advance that threw, is yielded exactly the decoded
  records that match the query, each as often as the source holds it; the loop
  \<^verbatim>\<open>for await\<close> is yielded exactly the matching ones among the records of the lines it
  pulled; and an advance answers with the record of the first line exactly when, for
  every field of the query, what is read from the record at that field is the value the
  query holds there, and is neither \<^verbatim>\<open>NaN\<close> nor an object that \<^verbatim>\<open>JSON.parse\<close> has just
  allocated. This is what matching is: \<^verbatim>\<open>===\<close> holds at every field of the query, and
  \<^verbatim>\<open>===\<close> holds between two values exactly when they are the same value of the same
  type, \<^verbatim>\<open>NaN\<close> and a newly decoded object apart. A field the query does not mention
  does not change whether a record matches.
\<close>

theorem filter_correctness:
  "(length (lines c) < n \<longrightarrow>
      yielded (fst (advances h n c)) = filter (matches h (query c)) (decoded h (lines c)))
   \<and> (for_await h c = (items, how, c') \<longrightarrow>
      items = filter (matches h (query c)) (decoded h (pulled c c')))
   \<and> (lines c1 = l # ls \<longrightarrow> JSON_parse h l = Some d \<longrightarrow>
      (fst (cursor_next h c1) = Value d \<longleftrightarrow>
       (\<forall>field \<in> set (map fst (query c1)).
          \<exists>v. get_property h d field = Inr v \<and> v = query_value (query c1) field
            \<and> v \<noteq> VNum NaN \<and> (\<forall>j. v \<noteq> VObj (Parsed j)))))
   \<and> (matches h q data \<longleftrightarrow>
      (\<forall>field \<in> set (map fst q).
         case get_property h data field of
           Inl e \<Rightarrow> False
         | Inr v \<Rightarrow> strict_eq v (query_value q field)))
   \<and> (strict_eq a b \<longleftrightarrow> a = b \<and> a \<noteq> VNum NaN \<and> (\<forall>j. a \<noteq> VObj (Parsed j)))
   \<and> (extra \<notin> set (map fst q) \<longrightarrow>
      matches h q (JObj ((extra, v) # own)) = matches h q (JObj own))"
proof (intro conjI impI)
  show "strict_eq a b \<longleftrightarrow> a = b \<and> a \<noteq> VNum NaN \<and> (\<forall>j. a \<noteq> VObj (Parsed j))"
    by (rule strict_eq_iff)
next
  assume "length (lines c) < n"
  then show "yielded (fst (advances h n c)) = filter (matches h (query c)) (decoded h (lines c))"
    by (rule advances_yielded)
next
  assume "for_await h c = (items, how, c')"
  from for_await_pulled [OF this] obtain p where "lines c = p @ lines c'"
    "items = filter (matches h (query c)) (decoded h p)"
    by blast
  then show "items = filter (matches h (query c)) (decoded h (pulled c c'))"
    by (simp add: pulled_append)
next
  assume "lines c1 = l # ls" and "JSON_parse h l = Some d"
  then have "fst (cursor_next h c1) = Value d \<longleftrightarrow> matches h (query c1) d"
    by (rule cursor_next_first)
  then show "fst (cursor_next h c1) = Value d \<longleftrightarrow>
       (\<forall>field \<in> set (map fst (query c1)).
          \<exists>v. get_property h d field = Inr v \<and> v = query_value (query c1) field
            \<and> v \<noteq> VNum NaN \<and> (\<forall>j. v \<noteq> VObj (Parsed j)))"
    by (simp only: matches_equal)
next
  show "matches h q data \<longleftrightarrow>
      (\<forall>field \<in> set (map fst q).
         case get_property h data field of
           Inl e \<Rightarrow> False
         | Inr v \<Rightarrow> strict_eq v (query_value q field))"
    by (rule matches_iff)
next
  assume "extra \<notin> set (map fst q)"
  then show "matches h q (JObj ((extra, v) # own)) = matches h q (JObj own)"
    by (rule matches_extra)
qed

theorem filter_correctness_witness:
  "length (lines (example_cursor ''./broken.dat'' Roma)) < 4
   \<and> yielded (fst (advances example_host 4 (example_cursor ''./broken.dat'' Roma))) = [Roma1]
   \<and> filter (matches example_host Roma) (decoded example_host (example_files ''./broken.dat''))
       = [Roma1]
   \<and> fst (for_await example_host (example_cursor ''./storage.dat'' Roma)) = [Roma3, Roma1]
   \<and> filter (matches example_host Roma) (decoded example_host (example_files ''./storage.dat''))
       = [Roma3, Roma1]
   \<and> yielded (fst (advances example_host 4 (example_cursor ''./storage.dat'' pop3))) = [Roma3]
   \<and> filter (matches example_host pop3) (decoded example_host (example_files ''./storage.dat''))
       = [Roma3]
   \<and> yielded (fst (advances example_host 3 (example_cursor ''./mixed.dat'' toString_builtin)))
       = [Roma3, JObj []]
   \<and> filter (matches example_host toString_builtin)
        (decoded example_host (example_files ''./mixed.dat'')) = [Roma3, JObj []]
   \<and> fst (cursor_next example_host (example_cursor ''./storage.dat'' pop3)) = Value Roma3
   \<and> map fst pop3 = [''pop'']
   \<and> get_property example_host Roma3 ''pop'' = Inr (VNum (Finite 3))
   \<and> query_value pop3 ''pop'' = VNum (Finite 3)
   \<and> strict_eq (VStr ''Roma'') (VStr ''Roma'') \<and> \<not> strict_eq (VNum (Finite 3)) (VStr ''3'')
   \<and> strict_eq (VNum (Finite 3)) (VNum (Finite 3)) \<and> \<not> strict_eq (VNum (Finite 3)) (VNum (Finite 5))
   \<and> \<not> strict_eq (VNum NaN) (VNum NaN)
   \<and> strict_eq (VObj (Builtin ''Object'')) (VObj (Builtin ''Object''))
   \<and> strict_eq (VObj (Allocated 1)) (VObj (Allocated 1))
   \<and> \<not> strict_eq (VObj (Parsed (JObj []))) (VObj (Parsed (JObj [])))
   \<and> ''pop'' \<notin> set (map fst Roma)
   \<and> matches example_host Roma (JObj [(''pop'', JNum (Finite 3)), (''city'', JStr ''Roma'')])
   \<and> matches example_host Roma (JObj [(''city'', JStr ''Roma'')])"
proof -
  let ?b = "example_cursor ''./broken.dat'' Roma"
  let ?s = "example_cursor ''./storage.dat'' Roma"
  let ?s' = "?s\<lparr>lines := [], current := 3\<rparr>"
  let ?p = "example_cursor ''./storage.dat'' pop3"
  let ?t = "example_cursor ''./mixed.dat'' toString_builtin"
  note inst = filter_correctness [where c = ?b and n = 4 and h = example_host and q = Roma
      and extra = "''pop''" and v = "JNum (Finite 3)" and own = "[(''city'', JStr ''Roma'')]"]
  note inst2 = filter_correctness [where c = ?s and h = example_host
      and items = "[Roma3, Roma1]" and how = Normal and c' = ?s']
  note inst3 = filter_correctness [where c = ?p and n = 4 and h = example_host and ?c1.0 = ?p
      and l = \<open>''{"city":"Roma","pop":3}''\<close>
      and ls = \<open>[''{"city":"Milano","pop":5}'', ''{"city":"Roma","pop":1}'']\<close> and d = Roma3]
  note inst4 = filter_correctness [where c = ?t and n = 3 and h = example_host]
  note eq3 = filter_correctness [where a = "VNum (Finite 3)" and b = "VNum (Finite 3)"]
  note eq35 = filter_correctness [where a = "VNum (Finite 3)" and b = "VNum (Finite 5)"]
  note eqNaN = filter_correctness [where a = "VNum NaN" and b = "VNum NaN"]
  note eqB = filter_correctness [where a = "VObj (Builtin ''Object'')"
      and b = "VObj (Builtin ''Object'')"]
  note eqA = filter_correctness [where a = "VObj (Allocated 1)" and b = "VObj (Allocated 1)"]
  note eqP = filter_correctness [where a = "VObj (Parsed (JObj []))"
      and b = "VObj (Parsed (JObj []))"]
  have len: "length (lines ?b) < 4"
    by (simp add: example_defs)
  have q: "query ?b = Roma" "lines ?b = example_files ''./broken.dat''"
    by (simp_all add: example_cursor_def)
  have run: "yielded (fst (advances example_host 4 ?b)) = [Roma1]"
    by (simp add: example_broken_advances)
  have b: "filter (matches example_host Roma) (decoded example_host (example_files ''./broken.dat''))
      = [Roma1]"
    using inst len q run by simp
  have "pulled ?s ?s' = example_files ''./storage.dat''"
    by (simp add: pulled_def example_cursor_def)
  then have s: "filter (matches example_host Roma)
      (decoded example_host (example_files ''./storage.dat'')) = [Roma3, Roma1]"
    using inst2 example_storage_for_await by (simp add: example_cursor_def)
  have lenp: "length (lines ?p) < 4" "query ?p = pop3" "lines ?p = example_files ''./storage.dat''"
    by (simp_all add: example_defs)
  have runp: "yielded (fst (advances example_host 4 ?p)) = [Roma3]"
    by (simp add: example_pop3_advances)
  have p: "filter (matches example_host pop3)
      (decoded example_host (example_files ''./storage.dat'')) = [Roma3]"
    using inst3 lenp runp by simp
  have lent: "length (lines ?t) < 3" "query ?t = toString_builtin"
    "lines ?t = example_files ''./mixed.dat''"
    by (simp_all add: example_defs)
  have runt: "yielded (fst (advances example_host 3 ?t)) = [Roma3, JObj []]"
    by (simp add: example_toString_advances)
  have t: "filter (matches example_host toString_builtin)
      (decoded example_host (example_files ''./mixed.dat'')) = [Roma3, JObj []]"
    using inst4 lent runt by simp
  have first: \<open>lines ?p = ''{"city":"Roma","pop":3}''
        # [''{"city":"Milano","pop":5}'', ''{"city":"Roma","pop":1}'']\<close>
    \<open>JSON_parse example_host ''{"city":"Roma","pop":3}'' = Some Roma3\<close>
    by (simp_all add: example_defs)
  have nxt: "fst (cursor_next example_host ?p) = Value Roma3"
    by (simp add: example_pop3_next)
  have fields: "\<forall>field \<in> set (map fst pop3).
        \<exists>v. get_property example_host Roma3 field = Inr v \<and> v = query_value pop3 field
          \<and> v \<noteq> VNum NaN \<and> (\<forall>j. v \<noteq> VObj (Parsed j))"
    using inst3 first nxt lenp(2) by simp
  then have "\<exists>v. get_property example_host Roma3 ''pop'' = Inr v \<and> v = query_value pop3 ''pop''"
    by (simp add: pop3_def)
  then have pop3: "get_property example_host Roma3 ''pop'' = Inr (VNum (Finite 3))"
    "query_value pop3 ''pop'' = VNum (Finite 3)" "map fst pop3 = [''pop'']"
    by (auto simp: pop3_def query_value_def)
  have eq: "strict_eq (VStr ''Roma'') (VStr ''Roma'')" "\<not> strict_eq (VNum (Finite 3)) (VStr ''3'')"
    by simp_all
  have num: "strict_eq (VNum (Finite 3)) (VNum (Finite 3))"
    "\<not> strict_eq (VNum (Finite 3)) (VNum (Finite 5))" "\<not> strict_eq (VNum NaN) (VNum NaN)"
    using eq3 eq35 eqNaN by simp_all
  have obj: "strict_eq (VObj (Builtin ''Object'')) (VObj (Builtin ''Object''))"
    "strict_eq (VObj (Allocated 1)) (VObj (Allocated 1))"
    "\<not> strict_eq (VObj (Parsed (JObj []))) (VObj (Parsed (JObj [])))"
    using eqB eqA eqP by simp_all
  have pop: "''pop'' \<notin> set (map fst Roma)"
    by (simp add: Roma_def)
  have city: "matches example_host Roma (JObj [(''city'', JStr ''Roma'')])"
    by (simp add: run_simps example_defs)
  have both: "matches example_host Roma (JObj [(''pop'', JNum (Finite 3)), (''city'', JStr ''Roma'')])"
    using inst pop city by blast
  show ?thesis
    using len run b s runp p runt t nxt pop3 eq num obj pop city both
      example_storage_for_await
    by simp
qed




text \<open>
  C3 (the guards of the base classes). The guard of a base constructor compares the
  prototype of \<^verbatim>\<open>this\<close> with the constructor function of the class, and a prototype is
  never a constructor function: the three base constructors return normally whatever
  class is instantiated, the base class itself included.
\<close>

theorem base_constructors_return:
  "DataAccessLayer_constructor = Inr DataAccessLayer_object
   \<and> Database_constructor new_target d = Inr \<lparr>Database_object.dal = d\<rparr>
   \<and> Cursor_constructor new_target d = Inr \<lparr>Cursor_object.dal = d, current = 0\<rparr>
   \<and> Database_constructor Database d = Inr \<lparr>Database_object.dal = d\<rparr>
   \<and> Cursor_constructor Cursor d = Inr \<lparr>Cursor_object.dal = d, current = 0\<rparr>"
  by (simp add: DataAccessLayer_constructor_def Database_constructor_def Cursor_constructor_def
      getPrototypeOf_this_def)

text \<open>
  C4 (position counting). After any number of calls of \<^verbatim>\<open>next\<close>, \<open>current\<close> has grown by
  the number of lines pulled from the source, the lines skipped as non-matching
  included; the records yielded are at most as many; \<open>current\<close> never decreases from one
  call to a later one; and a cursor starts at 0, so \<open>current\<close> is the number of lines
  pulled since the cursor was made.
\<close>

theorem position_counting:
  assumes "advances h n c = (rs, c')"
  shows "current c' = current c + length (pulled c c')
     \<and> lines c = pulled c c' @ lines c'
     \<and> length (yielded rs) \<le> length (pulled c c')
     \<and> (\<forall>m \<le> n. current (snd (advances h m c)) \<le> current c')
     \<and> (FileLineCursor_constructor d fileStorage q = Inr c \<longrightarrow> current c' = length (pulled c c'))"
proof -
  from advances_pulled [OF assms] obtain p where p: "lines c = p @ lines c'"
    "c' = c\<lparr>lines := lines c', current := current c + length p\<rparr>"
    "length (yielded rs) \<le> length p"
    by blast
  have pulled: "pulled c c' = p"
    using p(1) by (rule pulled_append)
  have cur: "current c' = current c + length p"
    by (subst p(2)) simp
  have mono: "\<forall>m \<le> n. current (snd (advances h m c)) \<le> current c'"
    using advances_current_mono [of _ n h c] assms by simp
  show ?thesis
    using p(1) p(3) pulled cur mono constructor_current [of d fileStorage q c] by simp
qed

theorem position_counting_witness:
  "FileLineCursor_constructor FsDataAccess_object (example_database ''./storage.dat'') Roma =
     Inr (example_cursor ''./storage.dat'' Roma)
   \<and> advances example_host 2 (example_cursor ''./storage.dat'' Roma) =
     ([Value Roma3, Value Roma1],
      (example_cursor ''./storage.dat'' Roma)\<lparr>lines := [], current := 3\<rparr>)
   \<and> current ((example_cursor ''./storage.dat'' Roma)\<lparr>lines := [], current := 3\<rparr>) = 3
   \<and> length (pulled (example_cursor ''./storage.dat'' Roma)
        ((example_cursor ''./storage.dat'' Roma)\<lparr>lines := [], current := 3\<rparr>)) = 3
   \<and> length (yielded [Value Roma3, Value Roma1]) = 2
   \<and> (1 :: nat) \<le> 2
   \<and> current (snd (advances example_host 1 (example_cursor ''./storage.dat'' Roma))) \<le> 3"
proof -
  let ?c = "example_cursor ''./storage.dat'' Roma"
  let ?c' = "?c\<lparr>lines := [], current := 3\<rparr>"
  note inst = position_counting [OF example_storage_advances,
      of FsDataAccess_object "example_database ''./storage.dat''" Roma]
  have made: "FileLineCursor_constructor FsDataAccess_object (example_database ''./storage.dat'')
      Roma = Inr ?c"
    by (rule example_constructor)
  have "current ?c' = length (pulled ?c ?c')"
    using inst made by blast
  then have p: "length (pulled ?c ?c') = 3"
    by simp
  have "\<forall>m \<le> 2. current (snd (advances example_host m ?c)) \<le> current ?c'"
    using inst by blast
  then have "1 \<le> (2 :: nat) \<longrightarrow> current (snd (advances example_host 1 ?c)) \<le> current ?c'"
    by blast
  then show ?thesis
    using made p example_storage_advances by simp
qed

text \<open>
  C5 (termination on exhaustion). An advance that answered \<^verbatim>\<open>done\<close> leaves the source
  empty, and every later advance answers \<^verbatim>\<open>done\<close> again and changes nothing: none
  yields a record and none throws.
\<close>

theorem exhaustion_is_terminal:
  assumes "cursor_next h c = (Done, c')"
  shows "lines c' = [] \<and> advances h n c' = (replicate n Done, c')
     \<and> cursor_next h c' = (Done, c')"
proof -
  from cursor_next_pulled [OF assms] have "lines c' = []"
    by blast
  then show ?thesis
    by (simp add: advances_Nil cursor_next_Nil)
qed

theorem exhaustion_is_terminal_witness:
  "cursor_next example_host (example_cursor ''./milano.dat'' Roma) =
     (Done, (example_cursor ''./milano.dat'' Roma)\<lparr>lines := [], current := 1\<rparr>)
   \<and> advances example_host 3 ((example_cursor ''./milano.dat'' Roma)\<lparr>lines := [], current := 1\<rparr>)
     = ([Done, Done, Done], (example_cursor ''./milano.dat'' Roma)\<lparr>lines := [], current := 1\<rparr>)"
  using exhaustion_is_terminal [OF example_Milano_only, of 3]
  by (simp add: example_Milano_only numeral_eq_Suc)

text \<open>
  C6 (decode errors). An advance throws the \<^verbatim>\<open>SyntaxError\<close> of \<^verbatim>\<open>JSON.parse\<close> exactly
  when one of the lines it pulled cannot be decoded; that line is the last one it
  pulled, and the advance yields no record. The loop \<^verbatim>\<open>for await\<close> ends with that error
  exactly when it pulled such a line.
\<close>

theorem decode_error_propagates:
  "(cursor_next h c = (r, c') \<longrightarrow>
      ((\<exists>x \<in> set (pulled c c'). JSON_parse h x = None) \<longleftrightarrow> r = Throw SyntaxError)
      \<and> (r = Throw SyntaxError \<longrightarrow> JSON_parse h (last (pulled c c')) = None \<and> yielded [r] = []))
   \<and> (for_await h c = (items, how, c'') \<longrightarrow>
      ((\<exists>x \<in> set (pulled c c''). JSON_parse h x = None) \<longleftrightarrow> how = Thrown SyntaxError))"
proof (intro conjI impI)
  assume a: "cursor_next h c = (r, c')"
  from cursor_next_pulled [OF a] obtain p where p: "lines c = p @ lines c'"
    "(\<exists>x \<in> set p. JSON_parse h x = None) \<longleftrightarrow> r = Throw SyntaxError"
    "r = Throw SyntaxError \<longrightarrow> JSON_parse h (last p) = None"
    by blast
  have pulled: "pulled c c' = p"
    using p(1) by (rule pulled_append)
  show "(\<exists>x \<in> set (pulled c c'). JSON_parse h x = None) \<longleftrightarrow> r = Throw SyntaxError"
    using p(2) pulled by simp
  assume "r = Throw SyntaxError"
  then show "JSON_parse h (last (pulled c c')) = None" "yielded [r] = []"
    using p(3) pulled by simp_all
next
  assume a: "for_await h c = (items, how, c'')"
  from for_await_pulled [OF a] obtain p where p: "lines c = p @ lines c''"
    "(\<exists>x \<in> set p. JSON_parse h x = None) \<longleftrightarrow> how = Thrown SyntaxError"
    by blast
  have "pulled c c'' = p"
    using p(1) by (rule pulled_append)
  then show "(\<exists>x \<in> set (pulled c c''). JSON_parse h x = None) \<longleftrightarrow> how = Thrown SyntaxError"
    using p(2) by simp
qed

theorem decode_error_propagates_witness:
  \<open>cursor_next example_host (example_cursor ''./broken.dat'' Roma) =
     (Throw SyntaxError,
      (example_cursor ''./broken.dat'' Roma)\<lparr>lines := [''{"city":"Roma","pop":1}''], current := 2\<rparr>)
   \<and> pulled (example_cursor ''./broken.dat'' Roma)
       ((example_cursor ''./broken.dat'' Roma)\<lparr>lines := [''{"city":"Roma","pop":1}''], current := 2\<rparr>)
     = [''{"city":"Milano","pop":5}'', ''not-json'']
   \<and> JSON_parse example_host ''not-json'' = None
   \<and> for_await example_host (example_cursor ''./broken.dat'' Roma) =
     ([], Thrown SyntaxError,
      (example_cursor ''./broken.dat'' Roma)\<lparr>lines := [''{"city":"Roma","pop":1}''], current := 2\<rparr>)\<close>
proof -
  let ?c = "example_cursor ''./broken.dat'' Roma"
  let ?c' = \<open>?c\<lparr>lines := [''{"city":"Roma","pop":1}''], current := 2\<rparr>\<close>
  have p: \<open>pulled ?c ?c' = [''{"city":"Milano","pop":5}'', ''not-json'']\<close>
    by (simp add: pulled_def example_cursor_def example_files_def)
  from decode_error_propagates [of example_host ?c "Throw SyntaxError" ?c' "[]"
      "Thrown SyntaxError" ?c']
  have "JSON_parse example_host (last (pulled ?c ?c')) = None"
    using example_broken_next example_broken_for_await by simp
  then have "JSON_parse example_host ''not-json'' = None"
    using p by simp
  then show ?thesis
    using p example_broken_next example_broken_for_await by simp
qed

text \<open>
  C7 (the empty query). Every decoded value matches the empty query, so a cursor with
  the empty query yields every record that is decoded, as decoded and in the order of
  the source: to a caller that calls \<^verbatim>\<open>next\<close> until the source is exhausted all of them,
  to the loop \<^verbatim>\<open>for await\<close> those of the lines it pulled, which are all lines when every
  line can be decoded.
\<close>

theorem empty_query_identity:
  assumes "query c = []"
  shows "matches h (query c) data
     \<and> check_fields h data (query c) (map fst (query c)) True = Inr True
     \<and> (length (lines c) < n \<longrightarrow> yielded (fst (advances h n c)) = decoded h (lines c))
     \<and> (for_await h c = (items, how, c') \<longrightarrow> items = decoded h (pulled c c'))
     \<and> (map (JSON_parse h) (lines c) = map Some rs \<longrightarrow>
          for_await h c = (rs, Normal, c\<lparr>lines := [], current := current c + length rs\<rparr>))"
proof (intro conjI impI)
  show m: "matches h (query c) data"
    using assms by (simp add: matches_def)
  show "check_fields h data (query c) (map fst (query c)) True = Inr True"
    using assms by simp
  have all: "filter (matches h (query c)) xs = xs" for xs
    using assms by (simp add: matches_def)
  {
    assume "length (lines c) < n"
    then show "yielded (fst (advances h n c)) = decoded h (lines c)"
      using advances_yielded [of c n h] all by simp
  }
  {
    assume "for_await h c = (items, how, c')"
    from for_await_pulled [OF this] obtain p where "lines c = p @ lines c'"
      "items = filter (matches h (query c)) (decoded h p)"
      by blast
    then show "items = decoded h (pulled c c')"
      using all by (simp add: pulled_append)
  }
  {
    assume "map (JSON_parse h) (lines c) = map Some rs"
    then show "for_await h c = (rs, Normal, c\<lparr>lines := [], current := current c + length rs\<rparr>)"
      using for_await_records [of h c rs] assms all by simp
  }
qed

theorem empty_query_identity_witness:
  "query (example_cursor ''./storage.dat'' []) = []
   \<and> length (lines (example_cursor ''./storage.dat'' [])) < 4
   \<and> yielded (fst (advances example_host 4 (example_cursor ''./storage.dat'' [])))
       = [Roma3, Milano5, Roma1]
   \<and> map (JSON_parse example_host) (lines (example_cursor ''./storage.dat'' []))
       = map Some [Roma3, Milano5, Roma1]
   \<and> for_await example_host (example_cursor ''./storage.dat'' []) =
       ([Roma3, Milano5, Roma1], Normal,
        (example_cursor ''./storage.dat'' [])\<lparr>lines := [], current := 3\<rparr>)
   \<and> decoded example_host (example_files ''./storage.dat'') = [Roma3, Milano5, Roma1]
   \<and> matches example_host (query (example_cursor ''./storage.dat'' [])) Milano5"
proof -
  let ?c = "example_cursor ''./storage.dat'' []"
  let ?c' = "?c\<lparr>lines := [], current := 3\<rparr>"
  have q: "query ?c = []"
    by (simp add: example_cursor_def)
  have len: "length (lines ?c) < 4"
    by (simp add: example_defs)
  have d: "map (JSON_parse example_host) (lines ?c) = map Some [Roma3, Milano5, Roma1]"
    by (simp add: example_defs)
  note inst = empty_query_identity [OF q, of example_host Milano5 4 "[Roma3, Milano5, Roma1]"
      Normal ?c' "[Roma3, Milano5, Roma1]"]
  have m: "matches example_host (query ?c) Milano5"
    using inst by blast
  have "yielded (fst (advances example_host 4 ?c)) = decoded example_host (lines ?c)"
    using inst len by blast
  then have dec: "decoded example_host (lines ?c) = [Roma3, Milano5, Roma1]"
    by (simp add: example_storage_all_advances)
  have "pulled ?c ?c' = lines ?c"
    by (simp add: pulled_def)
  then have "[Roma3, Milano5, Roma1] = decoded example_host (lines ?c)"
    using inst example_storage_all by simp
  have run: "for_await example_host ?c =
      ([Roma3, Milano5, Roma1], Normal, ?c\<lparr>lines := [], current := current ?c + 3\<rparr>)"
    using inst d by simp
  have l: "lines ?c = example_files ''./storage.dat''"
    by (simp add: example_cursor_def)
  show ?thesis
    using q len d m dec run l example_storage_all_advances by (simp add: example_cursor_def)
qed

text \<open>
  C8 (order preservation). When the lines of the source decode to the records \<open>rs\<close>, in
  this order, the records yielded are the matching ones among \<open>rs\<close> in the same order,
  each once per occurrence: to a caller that calls \<^verbatim>\<open>next\<close> until the source is
  exhausted, and to the loop \<^verbatim>\<open>for await\<close> when no record is \<^verbatim>\<open>null\<close> (or the query is
  empty), since reading a field of \<^verbatim>\<open>null\<close> throws. A record that an advance yields
  matches the query: no other record reaches the caller.
\<close>

theorem order_preservation:
  assumes "map (JSON_parse h) (lines c) = map Some rs"
  shows "(length rs < n \<longrightarrow> yielded (fst (advances h n c)) = filter (matches h (query c)) rs)
     \<and> (JNull \<notin> set rs \<or> query c = [] \<longrightarrow>
          for_await h c =
            (filter (matches h (query c)) rs, Normal,
             c\<lparr>lines := [], current := current c + length rs\<rparr>))
     \<and> (cursor_next h c = (Value d, c1) \<longrightarrow> matches h (query c) d \<and> d \<in> set rs)"
proof (intro conjI impI)
  have len: "length (lines c) = length rs"
    using assms by (metis length_map)
  {
    assume "length rs < n"
    then show "yielded (fst (advances h n c)) = filter (matches h (query c)) rs"
      using advances_yielded [of c n h] len decoded_records [OF assms] by simp
  }
  {
    assume "JNull \<notin> set rs \<or> query c = []"
    then show "for_await h c =
        (filter (matches h (query c)) rs, Normal,
         c\<lparr>lines := [], current := current c + length rs\<rparr>)"
      using for_await_records [OF assms] by simp
  }
  {
    assume a: "cursor_next h c = (Value d, c1)"
    from cursor_next_pulled [OF a] obtain p where p: "lines c = p @ lines c1"
      "JSON_parse h (last p) = Some d" "matches h (query c) d" "p \<noteq> []"
      by blast
    have "last p \<in> set (lines c)"
      using p(1) p(4) by simp
    then have "JSON_parse h (last p) \<in> set (map Some rs)"
      using assms by (metis imageI set_map)
    then show "matches h (query c) d" "d \<in> set rs"
      using p(2) p(3) by auto
  }
qed

theorem order_preservation_witness:
  \<open>map (JSON_parse example_host) (lines (example_cursor ''./storage.dat'' Roma))
       = map Some [Roma3, Milano5, Roma1]
   \<and> length [Roma3, Milano5, Roma1] < 4
   \<and> yielded (fst (advances example_host 4 (example_cursor ''./storage.dat'' Roma)))
       = [Roma3, Roma1]
   \<and> JNull \<notin> set [Roma3, Milano5, Roma1]
   \<and> filter (matches example_host Roma) [Roma3, Milano5, Roma1] = [Roma3, Roma1]
   \<and> for_await example_host (example_cursor ''./storage.dat'' Roma) =
       ([Roma3, Roma1], Normal, (example_cursor ''./storage.dat'' Roma)\<lparr>lines := [], current := 3\<rparr>)
   \<and> cursor_next example_host (example_cursor ''./storage.dat'' Roma) =
       (Value Roma3,
        (example_cursor ''./storage.dat'' Roma)
          \<lparr>lines := [''{"city":"Milano","pop":5}'', ''{"city":"Roma","pop":1}''], current := 1\<rparr>)
   \<and> matches example_host Roma Roma3 \<and> Roma3 \<in> set [Roma3, Milano5, Roma1]\<close>
proof -
  let ?c = "example_cursor ''./storage.dat'' Roma"
  let ?c1 = \<open>?c\<lparr>lines := [''{"city":"Milano","pop":5}'', ''{"city":"Roma","pop":1}''],
      current := 1\<rparr>\<close>
  have d: "map (JSON_parse example_host) (lines ?c) = map Some [Roma3, Milano5, Roma1]"
    by (simp add: example_defs)
  have n: "JNull \<notin> set [Roma3, Milano5, Roma1]"
    by (simp add: example_defs)
  have q: "query ?c = Roma"
    by (simp add: example_cursor_def)
  note inst = order_preservation [OF d, of 4 Roma3 ?c1]
  have "for_await example_host ?c =
      (filter (matches example_host (query ?c)) [Roma3, Milano5, Roma1], Normal,
       ?c\<lparr>lines := [], current := current ?c + length [Roma3, Milano5, Roma1]\<rparr>)"
    using inst n by blast
  then have f: "filter (matches example_host Roma) [Roma3, Milano5, Roma1] = [Roma3, Roma1]"
    using example_storage_for_await q by simp
  have "yielded (fst (advances example_host 4 ?c))
      = filter (matches example_host (query ?c)) [Roma3, Milano5, Roma1]"
    using inst by simp
  then have a: "yielded (fst (advances example_host 4 ?c)) = [Roma3, Roma1]"
    using f q by simp
  have "matches example_host (query ?c) Roma3 \<and> Roma3 \<in> set [Roma3, Milano5, Roma1]"
    using inst example_storage_next by blast
  then have m: "matches example_host Roma Roma3" "Roma3 \<in> set [Roma3, Milano5, Roma1]"
    using q by simp_all
  show ?thesis
    using d n f a m example_storage_for_await example_storage_next by simp
qed

text \<open>
  C9 (the counter and the line that fails), as amended. \<open>current\<close> is incremented
  before the line is decoded: after an advance that threw the \<^verbatim>\<open>SyntaxError\<close>,
  \<open>current\<close> has grown by the number of lines pulled, the malformed line, which is the
  last of them, included. The answer \<^verbatim>\<open>done\<close> of the source is not counted: an advance
  that answers \<^verbatim>\<open>done\<close> has added the lines it pulled and skipped, and nothing more; on
  a source that is already exhausted it changes nothing.
\<close>

theorem current_counts_the_failing_line:
  "(cursor_next h c = (Throw SyntaxError, c') \<longrightarrow>
      current c' = current c + length (pulled c c') \<and> pulled c c' \<noteq> []
      \<and> JSON_parse h (last (pulled c c')) = None)
   \<and> (cursor_next h c = (Done, c') \<longrightarrow>
      current c' = current c + length (lines c) \<and> pulled c c' = lines c)
   \<and> (lines c = [] \<longrightarrow> cursor_next h c = (Done, c))"
proof (intro conjI impI)
  assume a: "cursor_next h c = (Throw SyntaxError, c')"
  from cursor_next_pulled [OF a] obtain p where p: "lines c = p @ lines c'"
    "c' = c\<lparr>lines := lines c', current := current c + length p\<rparr>"
    "JSON_parse h (last p) = None" "p \<noteq> []"
    by blast
  have pulled: "pulled c c' = p"
    using p(1) by (rule pulled_append)
  have "current c' = current c + length p"
    by (subst p(2)) simp
  then show "current c' = current c + length (pulled c c')" "pulled c c' \<noteq> []"
    "JSON_parse h (last (pulled c c')) = None"
    using pulled p(3) p(4) by simp_all
next
  assume a: "cursor_next h c = (Done, c')"
  from cursor_next_pulled [OF a] obtain p where p: "lines c = p @ lines c'"
    "c' = c\<lparr>lines := lines c', current := current c + length p\<rparr>" "lines c' = []"
    by blast
  have pulled: "pulled c c' = p"
    using p(1) by (rule pulled_append)
  have "current c' = current c + length p"
    by (subst p(2)) simp
  then show "current c' = current c + length (lines c)" "pulled c c' = lines c"
    using pulled p(1) p(3) by simp_all
next
  assume "lines c = []"
  then show "cursor_next h c = (Done, c)"
    by (rule cursor_next_Nil)
qed

theorem current_counts_the_failing_line_witness:
  \<open>cursor_next example_host (example_cursor ''./broken.dat'' Roma) =
     (Throw SyntaxError,
      (example_cursor ''./broken.dat'' Roma)\<lparr>lines := [''{"city":"Roma","pop":1}''], current := 2\<rparr>)
   \<and> current (example_cursor ''./broken.dat'' Roma) = 0
   \<and> pulled (example_cursor ''./broken.dat'' Roma)
       ((example_cursor ''./broken.dat'' Roma)\<lparr>lines := [''{"city":"Roma","pop":1}''], current := 2\<rparr>)
     = [''{"city":"Milano","pop":5}'', ''not-json'']
   \<and> JSON_parse example_host ''not-json'' = None
   \<and> cursor_next example_host (example_cursor ''./milano.dat'' Roma) =
     (Done, (example_cursor ''./milano.dat'' Roma)\<lparr>lines := [], current := 1\<rparr>)
   \<and> pulled (example_cursor ''./milano.dat'' Roma)
       ((example_cursor ''./milano.dat'' Roma)\<lparr>lines := [], current := 1\<rparr>)
     = lines (example_cursor ''./milano.dat'' Roma)
   \<and> lines ((example_cursor ''./milano.dat'' Roma)\<lparr>lines := [], current := 1\<rparr>) = []
   \<and> cursor_next example_host ((example_cursor ''./milano.dat'' Roma)\<lparr>lines := [], current := 1\<rparr>)
     = (Done, (example_cursor ''./milano.dat'' Roma)\<lparr>lines := [], current := 1\<rparr>)\<close>
proof -
  let ?c = "example_cursor ''./broken.dat'' Roma"
  let ?c' = \<open>?c\<lparr>lines := [''{"city":"Roma","pop":1}''], current := 2\<rparr>\<close>
  let ?m = "example_cursor ''./milano.dat'' Roma"
  let ?e = "?m\<lparr>lines := [], current := 1\<rparr>"
  have p: \<open>pulled ?c ?c' = [''{"city":"Milano","pop":5}'', ''not-json'']\<close>
    by (simp add: pulled_def example_cursor_def example_files_def)
  have "JSON_parse example_host (last (pulled ?c ?c')) = None"
    using current_counts_the_failing_line [of example_host ?c ?c'] example_broken_next by blast
  then have bad: "JSON_parse example_host ''not-json'' = None"
    using p by simp
  have all: "pulled ?m ?e = lines ?m"
    using current_counts_the_failing_line [of example_host ?m ?e] example_Milano_only by blast
  have again: "cursor_next example_host ?e = (Done, ?e)"
    using current_counts_the_failing_line [of example_host ?e] by simp
  have zero: "current ?c = 0"
    by (simp add: example_cursor_def)
  show ?thesis
    using p bad all again zero example_broken_next example_Milano_only by simp
qed

text \<open>
  The claim as stated fails where it says that the advance that observes the exhaustion
  leaves \<open>current\<close> unchanged: the advance below pulls the one line of the file, skips
  it, observes the exhaustion and answers \<^verbatim>\<open>done\<close>, and \<open>current\<close> has gone from 0 to 1.
\<close>

theorem exhaustion_leaves_current_counterexample:
  "fst (cursor_next example_host (example_cursor ''./milano.dat'' Roma)) = Done
   \<and> current (example_cursor ''./milano.dat'' Roma) = 0
   \<and> current (snd (cursor_next example_host (example_cursor ''./milano.dat'' Roma))) = 1
   \<and> current (snd (cursor_next example_host (example_cursor ''./milano.dat'' Roma)))
       \<noteq> current (example_cursor ''./milano.dat'' Roma)"
  by (simp add: example_Milano_only) (simp add: example_cursor_def)

text \<open>
  C10 (a query value \<^verbatim>\<open>undefined\<close>), as amended. For a field name that
  \<^verbatim>\<open>Object.prototype\<close> does not define, the query that maps the field to \<^verbatim>\<open>undefined\<close>
  matches exactly the decoded objects that have no own field of that name, and a
  cursor over a source of objects yields exactly those, in order.
\<close>

theorem undefined_selects_absent_fields:
  assumes "map_of Object_prototype field = None"
    and "query c = [(field, VUndefined)]"
  shows "(check_fields h (JObj own) (query c) (map fst (query c)) True
            = Inr (map_of own field = None))
     \<and> (map (JSON_parse h) (lines c) = map (Some \<circ> JObj) objs \<longrightarrow>
          fst (for_await h c) = map JObj (filter (\<lambda>own. map_of own field = None) objs))"
proof (intro conjI impI)
  have m: "matches h (query c) (JObj own) \<longleftrightarrow> map_of own field = None" for own
    using matches_undefined [OF assms(1)] assms(2) by simp
  show "check_fields h (JObj own) (query c) (map fst (query c)) True
      = Inr (map_of own field = None)"
    using m [of own] by (simp add: check_fields_True matches_def)
  assume "map (JSON_parse h) (lines c) = map (Some \<circ> JObj) objs"
  then have d: "map (JSON_parse h) (lines c) = map Some (map JObj objs)"
    by simp
  have "JNull \<notin> set (map JObj objs)"
    by auto
  then have "fst (for_await h c) = filter (matches h (query c)) (map JObj objs)"
    using for_await_records [OF d] by simp
  also have "\<dots> = map JObj (filter (\<lambda>own. map_of own field = None) objs)"
    using m by (simp add: filter_map comp_def)
  finally show "fst (for_await h c) = map JObj (filter (\<lambda>own. map_of own field = None) objs)" .
qed

theorem undefined_selects_absent_fields_witness:
  "map_of Object_prototype ''pop'' = None
   \<and> query (example_cursor ''./mixed.dat'' pop_undefined) = [(''pop'', VUndefined)]
   \<and> map (JSON_parse example_host) (lines (example_cursor ''./mixed.dat'' pop_undefined))
       = map (Some \<circ> JObj) [[(''city'', JStr ''Roma''), (''pop'', JNum (Finite 3))], []]
   \<and> fst (for_await example_host (example_cursor ''./mixed.dat'' pop_undefined)) = [JObj []]"
proof -
  let ?c = "example_cursor ''./mixed.dat'' pop_undefined"
  have a: "map_of Object_prototype ''pop'' = None"
    by (simp add: Object_prototype_def)
  have q: "query ?c = [(''pop'', VUndefined)]"
    by (simp add: example_cursor_def pop_undefined_def)
  have d: "map (JSON_parse example_host) (lines ?c)
       = map (Some \<circ> JObj) [[(''city'', JStr ''Roma''), (''pop'', JNum (Finite 3))], []]"
    by (simp add: example_defs)
  from undefined_selects_absent_fields [OF a q, of example_host _
      "[[(''city'', JStr ''Roma''), (''pop'', JNum (Finite 3))], []]"]
  have "fst (for_await example_host ?c) = [JObj []]"
    using d by simp
  then show ?thesis
    using a q d by simp
qed

text \<open>
  The claim as stated fails for an inherited name: the object \<^verbatim>\<open>{}\<close> has no field
  \<^verbatim>\<open>toString\<close>, but reading it gives the function of \<^verbatim>\<open>Object.prototype\<close>, which is not
  \<^verbatim>\<open>undefined\<close>, and the cursor does not yield the record.
\<close>

theorem undefined_selects_absent_fields_counterexample:
  "JSON_parse example_host ''{}'' = Some (JObj [])
   \<and> map_of ([] :: (string \<times> json) list) ''toString'' = None
   \<and> \<not> (matches example_host toString_undefined (JObj [])
          \<longleftrightarrow> map_of ([] :: (string \<times> json) list) ''toString'' = None)
   \<and> for_await example_host (example_cursor ''./empty-object.dat'' toString_undefined) =
       ([], Normal,
        (example_cursor ''./empty-object.dat'' toString_undefined)\<lparr>lines := [], current := 1\<rparr>)"
  by (simp add: for_await.simps run_simps example_defs toString_undefined_def Object_prototype_def)

end
